theory Spec2Isabelle
  imports Complex_Main "HOL-Library.Multiset"
begin

section \<open>Exceptions\<close>

text \<open>
  The exceptions that \<^verbatim>\<open>chemprop/data/data.py\<close> can raise in the functions modelled
  below. A function that may raise returns \<open>py_error + 'a\<close>, with \<open>Inl\<close> for the raise.
\<close>

datatype py_error =
  IndexError | AssertionError | ValueError | TypeError | AttributeError
  | ZeroDivisionError | Exception_raised

section \<open>SparseNoneArray\<close>

text \<open>
  \<^verbatim>\<open>
  class SparseNoneArray:
      def __init__(self, targets):
          self.length = len(targets)
          self.targets = defaultdict(lambda: None,
                                     {i: x for i, x in enumerate(targets) if x is not None})
      def __len__(self):
          return self.length
      def __getitem__(self, i):
          if i >= self.length:
              raise IndexError
          return self.targets[i]
  \<close>
  A target is a float or \<open>None\<close>: \<open>real option\<close>. The dictionary is a map from
  Python integers to stored values; a stored value may itself be \<open>None\<close>, because reading
  a missing key of a \<^verbatim>\<open>defaultdict\<close> stores the default under that key. So
  \<open>__getitem__\<close> returns the value together with the updated object.
\<close>

record SparseNoneArray =
  length_sna :: nat
  targets_sna :: "int \<rightharpoonup> real option"

definition enumerate_set :: "real option list \<Rightarrow> (int \<times> real option) list" where
  "enumerate_set targets =
     filter (\<lambda>(i, x). x \<noteq> None) (map (\<lambda>(i, x). (int i, x)) (enumerate 0 targets))"

definition SparseNoneArray_init :: "real option list \<Rightarrow> SparseNoneArray" where
  "SparseNoneArray_init targets =
     \<lparr>length_sna = length targets, targets_sna = map_of (enumerate_set targets)\<rparr>"

definition len_sna :: "SparseNoneArray \<Rightarrow> nat" where
  "len_sna a = length_sna a"

definition defaultdict_get ::
  "(int \<rightharpoonup> real option) \<Rightarrow> int \<Rightarrow> real option \<times> (int \<rightharpoonup> real option)" where
  "defaultdict_get d i =
     (case d i of
        Some v \<Rightarrow> (v, d)
      | None \<Rightarrow> (None, d(i \<mapsto> None)))"

definition getitem_sna ::
  "SparseNoneArray \<Rightarrow> int \<Rightarrow> py_error + (real option \<times> SparseNoneArray)" where
  "getitem_sna a i =
     (if i \<ge> int (length_sna a) then Inl IndexError
      else (let (v, d) = defaultdict_get (targets_sna a) i
            in Inr (v, a\<lparr>targets_sna := d\<rparr>)))"

text \<open>
  Any sequence of lookups on one object, each starting from the object the previous one
  left behind; a lookup that raises leaves the object as it was.
\<close>

fun lookups :: "SparseNoneArray \<Rightarrow> int list \<Rightarrow> SparseNoneArray" where
  "lookups a [] = a"
| "lookups a (j # js) =
     (case getitem_sna a j of
        Inl e \<Rightarrow> lookups a js
      | Inr (v, a') \<Rightarrow> lookups a' js)"

text \<open>What a lookup answers at key \<open>k\<close>, whether or not the key is stored.\<close>

definition view :: "SparseNoneArray \<Rightarrow> int \<Rightarrow> real option" where
  "view a k = (case targets_sna a k of Some v \<Rightarrow> v | None \<Rightarrow> None)"

text \<open>The value a call returns, or \<open>None\<close> for a raise; the exception it raises, if any.\<close>

definition returned :: "py_error + ('a \<times> 'b) \<Rightarrow> 'a option" where
  "returned r = (case r of Inl e \<Rightarrow> None | Inr (v, s) \<Rightarrow> Some v)"

definition raised :: "py_error + 'a \<Rightarrow> py_error option" where
  "raised r = (case r of Inl e \<Rightarrow> Some e | Inr v \<Rightarrow> None)"

section \<open>substructure_index_mapping\<close>

text \<open>
  \<^verbatim>\<open>
  def substructure_index_mapping(smiles, substructures: Set[FrozenSet[int]]) -> List[int]:
      ...
      num_atoms = mol.GetNumAtoms()
      atoms_in_substructures = set().union(*substructures)
      remaining_atoms = set(range(num_atoms)) - atoms_in_substructures
      assert sum(len(s) for s in substructures) == len(atoms_in_substructures)
      substructures = [sorted(list(substruct)) for substruct in substructures]
      substructures = sorted(substructures, key=lambda substruct: substruct[0])
      index_map = [None for _ in range(num_atoms)]
      remaining_atom_ordering = sorted(list(remaining_atoms))
      for i in range(len(remaining_atom_ordering)):
          index_map[remaining_atom_ordering[i]] = i
      for i in range(len(substructures)):
          for atom in substructures[i]:
              index_map[atom] = len(remaining_atom_ordering) + i
      return index_map
  \<close>
  The molecule enters through \<open>num_atoms\<close> only. Atom indices are RDKit atom indices,
  natural numbers. The set of frozensets is given by a listing: the outer list is the
  order in which Python iterates over the set, each inner list lists the members of one
  frozenset in its iteration order; a listing of a Python set has no two entries with
  the same members. This function reads an inner list \<open>s\<close> through \<open>set s\<close> only
  (\<open>len(s)\<close> is \<open>card (set s)\<close>, \<open>sorted(list(s))\<close> is \<open>sorted_list_of_set (set s)\<close>). Python's
  \<open>sorted\<close> is stable, as \<open>sort_key\<close> is; its key \<open>substruct[0]\<close> raises \<open>IndexError\<close> on an
  empty substructure, and \<open>index_map[atom] = ...\<close> raises \<open>IndexError\<close> for an atom that is
  not below \<open>num_atoms\<close>. The first loop writes at members of \<open>remaining_atoms\<close>, which are
  below \<open>num_atoms\<close> by construction, so it cannot raise.
\<close>

definition atoms_in_substructures :: "nat list list \<Rightarrow> nat set" where
  "atoms_in_substructures substructures = \<Union> (set ` set substructures)"

definition assign_remaining :: "nat list \<Rightarrow> nat option list \<Rightarrow> nat option list" where
  "assign_remaining remaining_atom_ordering index_map =
     fold (\<lambda>i m. m[remaining_atom_ordering ! i := Some i])
       [0..<length remaining_atom_ordering] index_map"

fun assign_atoms :: "nat \<Rightarrow> nat list \<Rightarrow> nat option list \<Rightarrow> py_error + nat option list" where
  "assign_atoms v [] index_map = Inr index_map"
| "assign_atoms v (atom # atoms) index_map =
     (if atom < length index_map then assign_atoms v atoms (index_map[atom := Some v])
      else Inl IndexError)"

fun assign_substructures ::
  "nat \<Rightarrow> nat \<Rightarrow> nat list list \<Rightarrow> nat option list \<Rightarrow> py_error + nat option list" where
  "assign_substructures r i [] index_map = Inr index_map"
| "assign_substructures r i (substruct # rest) index_map =
     (case assign_atoms (r + i) substruct index_map of
        Inl e \<Rightarrow> Inl e
      | Inr m \<Rightarrow> assign_substructures r (Suc i) rest m)"

definition substructure_index_mapping :: "nat \<Rightarrow> nat list list \<Rightarrow> py_error + nat option list" where
  "substructure_index_mapping num_atoms substructures =
     (let atoms_in = atoms_in_substructures substructures;
          remaining_atoms = {0..<num_atoms} - atoms_in
      in if sum_list (map (\<lambda>s. card (set s)) substructures) \<noteq> card atoms_in
         then Inl AssertionError
         else
           let sorted_each = map (\<lambda>s. sorted_list_of_set (set s)) substructures
           in if [] \<in> set sorted_each then Inl IndexError
              else
                let ordered = sort_key hd sorted_each;
                    index_map = replicate num_atoms None;
                    remaining_atom_ordering = sorted_list_of_set remaining_atoms;
                    index_map = assign_remaining remaining_atom_ordering index_map
                in assign_substructures (length remaining_atom_ordering) 0 ordered index_map)"

text \<open>
  Some atom belongs to more than one substructure of the listing; the number of
  remaining atoms and the size of the compacted index space.
\<close>

definition overlapping :: "nat list list \<Rightarrow> bool" where
  "overlapping substructures =
     (\<exists>a \<in> atoms_in_substructures substructures.
        1 < length (filter (\<lambda>s. a \<in> set s) substructures))"

definition num_remaining :: "nat \<Rightarrow> nat list list \<Rightarrow> nat" where
  "num_remaining num_atoms substructures =
     card ({0..<num_atoms} - atoms_in_substructures substructures)"

text \<open>
  The index map is a bijection of \<open>[0, n)\<close> onto itself: it has \<open>n\<close> entries, no two equal,
  and its entries are exactly the indices below \<open>n\<close>.
\<close>

definition bijection_on_range :: "nat option list \<Rightarrow> nat \<Rightarrow> bool" where
  "bijection_on_range index_map n =
     (length index_map = n \<and> distinct index_map \<and> set index_map = Some ` {0..<n})"

section \<open>Random numbers\<close>

text \<open>
  \<^verbatim>\<open>random\<close> and \<^verbatim>\<open>numpy.random\<close> each keep a global generator state. A state is
  modelled by the outcomes still to come: the raw integers the \<^verbatim>\<open>random\<close> module will
  draw, the raw integers \<^verbatim>\<open>numpy.random\<close> will draw, and the floats \<^verbatim>\<open>numpy.random\<close>
  will return. The theorems below hold for every such state. An integer call reduces the
  next raw integer to the range its contract promises: \<^verbatim>\<open>np.random.randint(high)\<close> is
  below \<open>high\<close> and raises \<open>ValueError\<close> for \<open>high \<le> 0\<close>; \<^verbatim>\<open>random.randint(a, b)\<close> lies in
  \<open>[a, b]\<close> and raises \<open>ValueError\<close> for an empty range; \<^verbatim>\<open>random._randbelow(n)\<close> is below
  \<open>n\<close>. Every value of the range is the outcome for some raw integer.
\<close>

type_synonym rng = "nat \<Rightarrow> nat"

record rand_state =
  py_random :: rng
  np_random :: rng
  np_uniform :: "nat \<Rightarrow> real"

definition np_random_random :: "rand_state \<Rightarrow> real \<times> rand_state" where
  "np_random_random rs = (np_uniform rs 0, rs\<lparr>np_uniform := (\<lambda>k. np_uniform rs (Suc k))\<rparr>)"

fun np_random_rand :: "nat \<Rightarrow> rand_state \<Rightarrow> real list \<times> rand_state" where
  "np_random_rand 0 rs = ([], rs)"
| "np_random_rand (Suc n) rs =
     (let (u, rs) = np_random_random rs;
          (us, rs) = np_random_rand n rs
      in (u # us, rs))"

definition np_random_randint :: "nat \<Rightarrow> rand_state \<Rightarrow> py_error + (nat \<times> rand_state)" where
  "np_random_randint high rs =
     (if high = 0 then Inl ValueError
      else Inr (np_random rs 0 mod high, rs\<lparr>np_random := (\<lambda>k. np_random rs (Suc k))\<rparr>))"

definition random_randint :: "int \<Rightarrow> int \<Rightarrow> rand_state \<Rightarrow> py_error + (int \<times> rand_state)" where
  "random_randint a b rs =
     (if b < a then Inl ValueError
      else Inr (a + int (py_random rs 0 mod nat (b - a + 1)),
                rs\<lparr>py_random := (\<lambda>k. py_random rs (Suc k))\<rparr>))"

definition randbelow :: "nat \<Rightarrow> rand_state \<Rightarrow> nat \<times> rand_state" where
  "randbelow n rs = (py_random rs 0 mod n, rs\<lparr>py_random := (\<lambda>k. py_random rs (Suc k))\<rparr>)"

section \<open>MoleculeDatapoint\<close>

text \<open>
  The fields of a datapoint that the modelled methods read or write. \<open>num_atoms\<close> is
  \<^verbatim>\<open>self.mol.GetNumAtoms()\<close>; \<open>features\<close> is \<open>None\<close> or a vector whose entries are floats or
  the missing sentinel \<open>None\<close>; \<open>nb_indices\<close> and \<open>vocab_targets\<close> are what the vocabulary
  returned in \<^verbatim>\<open>bert_init\<close>. A mask entry is 1 (keep) or 0 (predict): \<^verbatim>\<open>np.ones\<close> gives
  1.0, a comparison gives \<^verbatim>\<open>True\<close>, which Python counts as 1.
\<close>

record datapoint =
  smiles :: string
  num_atoms :: nat
  features :: "real option list option"
  kernel :: bool
  bert_pretraining :: bool
  bert_mask_prob :: real
  bert_mask_type :: "string option"
  bert_vocab_func :: "string option"
  vocab_targets :: "nat list"
  nb_indices :: "nat list list"
  substructures :: "nat list list"
  substructure_index_map :: "nat option list"
  mask :: "nat list"

text \<open>
  What the methods call outside \<^verbatim>\<open>data.py\<close>, taken as parameters:
  \<^verbatim>\<open>get_substructures\<close> (it may draw random numbers), the vocabulary token of a
  substructure (\<^verbatim>\<open>vocab.w2i(substructure_to_feature(mol, substruct))\<close>), the state
  \<^verbatim>\<open>random.seed(seed)\<close> sets, and the element \<^verbatim>\<open>set.pop()\<close> removes: \<open>set_pop\<close> reads a
  listing of the set and its value, reduced modulo the size, is the position of the
  element popped, so every choice of an element is the choice of some \<open>set_pop\<close>.
  The record also holds the one operation of float arithmetic that rounds:
  \<open>float_div x k\<close> is the float \<^verbatim>\<open>x / k\<close> for a float \<open>x\<close> and an integer \<open>k\<close>, the quotient
  rounded to a float. Floats are read as the real numbers they denote, so comparing two
  floats is comparing two reals; the theorems hold for every rounding.
\<close>

record externals =
  get_substructures :: "datapoint \<Rightarrow> rand_state \<Rightarrow> nat list list \<times> rand_state"
  w2i_feature :: "datapoint \<Rightarrow> nat list \<Rightarrow> nat"
  seed_state :: "int \<Rightarrow> rng"
  set_pop :: "nat list \<Rightarrow> nat"
  float_div :: "real \<Rightarrow> nat \<Rightarrow> real"

section \<open>recreate_mask\<close>

text \<open>
  \<^verbatim>\<open>
  if self.bert_vocab_func == 'substructure':
      self.substructures = get_substructures(list(self.mol.GetAtoms()),
                                             sizes=self.substructure_sizes, max_count=1)
      self.substructure_index_map = substructure_index_mapping(self.mol, self.substructures)
      self.mask = np.ones(max(self.substructure_index_map) + 1)
      self.mask[-len(self.substructures):] = 0
      self.mask = list(self.mask)
      sorted_substructures = sorted(list(self.substructures),
                                    key=lambda x: self.substructure_index_map[list(x)[0]])
      substructure_index_labels = [self.args.vocab.w2i(substructure_to_feature(self.mol, substruct))
                                   for substruct in sorted_substructures]
      self.vocab_targets = np.zeros(len(self.mask))
      if len(substructure_index_labels) > 0:
          self.vocab_targets[-len(self.substructures):] = np.array(substructure_index_labels)
      return
  \<close>
  \<open>max\<close> of an empty list raises \<open>ValueError\<close>. The slice \<^verbatim>\<open>a[-k:]\<close> starts at \<open>-k\<close>: a
  negative start counts from the end (and is clamped at 0), a start that is not negative
  counts from the front; \<open>-0\<close> is \<open>0\<close>, which is not negative. Assigning an array to a
  slice raises \<open>ValueError\<close> when the lengths differ. \<^verbatim>\<open>len(self.substructures)\<close> is the
  length of the listing. The sort key \<^verbatim>\<open>self.substructure_index_map[list(x)[0]]\<close> is read
  only after \<open>substructure_index_mapping\<close> has returned, when every substructure is
  non-empty, its atoms are below \<open>num_atoms\<close> and every entry of the index map is set.
\<close>

definition py_max :: "nat option list \<Rightarrow> py_error + nat" where
  "py_max xs =
     (if xs = [] then Inl ValueError
      else if None \<in> set xs then Inl TypeError
      else Inr (Max (the ` set xs)))"

definition slice_start :: "int \<Rightarrow> nat \<Rightarrow> nat" where
  "slice_start start len =
     (if start < 0 then nat (max 0 (int len + start)) else min (nat start) len)"

definition assign_tail :: "nat \<Rightarrow> 'a \<Rightarrow> 'a list \<Rightarrow> 'a list" where
  "assign_tail k v xs =
     (let start = slice_start (- int k) (length xs)
      in take start xs @ replicate (length xs - start) v)"

definition assign_tail_array :: "nat \<Rightarrow> 'a list \<Rightarrow> 'a list \<Rightarrow> py_error + 'a list" where
  "assign_tail_array k vs xs =
     (let start = slice_start (- int k) (length xs)
      in if length vs = length xs - start then Inr (take start xs @ vs) else Inl ValueError)"

definition recreate_mask_substructure ::
  "externals \<Rightarrow> datapoint \<Rightarrow> rand_state \<Rightarrow> py_error + (datapoint \<times> rand_state)" where
  "recreate_mask_substructure ext d rs =
     (let (subs, rs) = get_substructures ext d rs
      in case substructure_index_mapping (num_atoms d) subs of
           Inl e \<Rightarrow> Inl e
         | Inr index_map \<Rightarrow>
             (case py_max index_map of
                Inl e \<Rightarrow> Inl e
              | Inr mx \<Rightarrow>
                  (let msk = replicate (mx + 1) (1 :: nat);
                       msk = assign_tail (length subs) 0 msk;
                       sorted_substructures = sort_key (\<lambda>x. the (index_map ! hd x)) subs;
                       substructure_index_labels = map (w2i_feature ext d) sorted_substructures;
                       targets = replicate (length msk) (0 :: nat)
                   in case (if length substructure_index_labels > 0
                            then assign_tail_array (length subs) substructure_index_labels targets
                            else Inr targets) of
                        Inl e \<Rightarrow> Inl e
                      | Inr targets \<Rightarrow>
                          Inr (d\<lparr>substructures := subs, substructure_index_map := index_map,
                                 mask := msk, vocab_targets := targets\<rparr>, rs))))"

text \<open>
  \<^verbatim>\<open>
  if self.bert_mask_type == 'cluster':
      self.mask = np.ones(num_targets)
      atoms = set(range(num_targets))
      while len(atoms) != 0:
          atom = atoms.pop()
          neighbors = self.nb_indices[atom]
          cluster = [atom] + neighbors
          if np.random.random() < self.bert_mask_prob / len(cluster):
              self.mask[cluster] = 0
              atoms -= set(neighbors)
      if sum(self.mask) == len(self.mask):
          atom = np.random.randint(len(self.mask))
          neighbors = self.nb_indices[atom]
          cluster = [atom] + neighbors
          self.mask[cluster] = 0
  \<close>
  The set \<open>atoms\<close> is a duplicate-free list. \<open>cluster_step\<close> is one iteration of the
  \<^verbatim>\<open>while\<close> loop, \<open>pop_atom\<close> the atom it pops, and \<open>cluster_next\<close> relates the state before
  an iteration that the loop runs to the state after it. Indexing a list or an array
  beyond its length raises \<open>IndexError\<close>. The threshold \<^verbatim>\<open>self.bert_mask_prob / len(cluster)\<close>
  is the float quotient \<open>float_div\<close>.
\<close>

definition zero_at :: "nat list \<Rightarrow> nat list \<Rightarrow> py_error + nat list" where
  "zero_at cluster msk =
     (if \<forall>a\<in>set cluster. a < length msk
      then Inr (fold (\<lambda>a m. m[a := 0]) cluster msk)
      else Inl IndexError)"

definition pop_atom :: "(nat list \<Rightarrow> nat) \<Rightarrow> nat list \<Rightarrow> nat" where
  "pop_atom pop atoms = atoms ! (pop atoms mod length atoms)"

definition cluster_step ::
  "(real \<Rightarrow> nat \<Rightarrow> real) \<Rightarrow> real \<Rightarrow> nat list list \<Rightarrow> (nat list \<Rightarrow> nat)
     \<Rightarrow> nat list \<times> nat list \<times> rand_state
     \<Rightarrow> py_error + (nat list \<times> nat list \<times> rand_state)" where
  "cluster_step fdiv p nb pop s =
     (case s of (atoms, msk, rs) \<Rightarrow>
        (let atom = pop_atom pop atoms;
             atoms = removeAll atom atoms
         in if \<not> atom < length nb then Inl IndexError
            else
              (let neighbors = nb ! atom;
                   cluster = atom # neighbors;
                   (u, rs) = np_random_random rs
               in if u < fdiv p (length cluster)
                  then (case zero_at cluster msk of
                          Inl e \<Rightarrow> Inl e
                        | Inr msk \<Rightarrow> Inr (filter (\<lambda>a. a \<notin> set neighbors) atoms, msk, rs))
                  else Inr (atoms, msk, rs))))"

lemma cluster_step_decreases:
  assumes "cluster_step fdiv p nb pop (atoms, msk, rs) = Inr (atoms', msk', rs')" "atoms \<noteq> []"
  shows "length atoms' < length atoms"
proof -
  let ?atom = "pop_atom pop atoms"
  have "?atom \<in> set atoms" using assms(2) by (simp add: pop_atom_def)
  then have r: "length (removeAll ?atom atoms) < length atoms"
    by (rule length_removeAll_less)
  have f: "length (filter P (removeAll ?atom atoms)) < length atoms" for P
    using r length_filter_le [of P "removeAll ?atom atoms"] by linarith
  show ?thesis
    using assms(1) r f unfolding cluster_step_def
    by (auto simp: Let_def split: if_splits prod.splits sum.splits)
qed

function cluster_loop ::
  "(real \<Rightarrow> nat \<Rightarrow> real) \<Rightarrow> real \<Rightarrow> nat list list \<Rightarrow> (nat list \<Rightarrow> nat)
     \<Rightarrow> nat list \<times> nat list \<times> rand_state
     \<Rightarrow> py_error + (nat list \<times> rand_state)" where
  "cluster_loop fdiv p nb pop (atoms, msk, rs) =
     (if atoms = [] then Inr (msk, rs)
      else (case cluster_step fdiv p nb pop (atoms, msk, rs) of
              Inl e \<Rightarrow> Inl e
            | Inr s \<Rightarrow> cluster_loop fdiv p nb pop s))"
  by pat_completeness auto
termination
proof (relation "measure (\<lambda>(fdiv, p, nb, pop, atoms, msk, rs). length atoms)")
  show "wf (measure (\<lambda>(fdiv, p, nb, pop, atoms, msk, rs). length atoms))" by simp
next
  fix fdiv p nb pop atoms msk rs s
  assume "atoms \<noteq> []" "cluster_step fdiv p nb pop (atoms, msk, rs) = Inr s"
  then show "((fdiv, p, nb, pop, s), (fdiv, p, nb, pop, atoms, msk, rs))
               \<in> measure (\<lambda>(fdiv, p, nb, pop, atoms, msk, rs). length atoms)"
    using cluster_step_decreases [of fdiv p nb pop atoms msk rs] by (cases s) auto
qed

definition cluster_next ::
  "(real \<Rightarrow> nat \<Rightarrow> real) \<Rightarrow> real \<Rightarrow> nat list list \<Rightarrow> (nat list \<Rightarrow> nat)
     \<Rightarrow> nat list \<times> nat list \<times> rand_state \<Rightarrow> nat list \<times> nat list \<times> rand_state \<Rightarrow> bool" where
  "cluster_next fdiv p nb pop s s' = (fst s \<noteq> [] \<and> cluster_step fdiv p nb pop s = Inr s')"

definition mask_cluster ::
  "(real \<Rightarrow> nat \<Rightarrow> real) \<Rightarrow> real \<Rightarrow> nat list list \<Rightarrow> (nat list \<Rightarrow> nat) \<Rightarrow> nat \<Rightarrow> rand_state
     \<Rightarrow> py_error + (nat list \<times> rand_state)" where
  "mask_cluster fdiv p nb pop num_targets rs =
     (case cluster_loop fdiv p nb pop ([0..<num_targets], replicate num_targets 1, rs) of
        Inl e \<Rightarrow> Inl e
      | Inr (msk, rs) \<Rightarrow>
          if sum_list msk = length msk
          then (case np_random_randint (length msk) rs of
                  Inl e \<Rightarrow> Inl e
                | Inr (atom, rs) \<Rightarrow>
                    if \<not> atom < length nb then Inl IndexError
                    else (case zero_at (atom # nb ! atom) msk of
                            Inl e \<Rightarrow> Inl e
                          | Inr msk \<Rightarrow> Inr (msk, rs)))
          else Inr (msk, rs))"

text \<open>
  \<^verbatim>\<open>
  elif self.bert_mask_type == 'correlation':
      self.mask = np.random.rand(num_targets) > self.bert_mask_prob
      for _ in range(len(self.mask)):
          index_to_change = random.randint(0, len(self.mask) - 1)
          if len(self.nb_indices[index_to_change]) > 0:
              nbr_index = random.randint(0, len(self.nb_indices[index_to_change]) - 1)
              self.mask[index_to_change] = self.mask[nbr_index]
      if sum(self.mask) == len(self.mask):
          self.mask[np.random.randint(len(self.mask))] = 0
  elif self.bert_mask_type == 'random':
      self.mask = np.random.rand(num_targets) > self.bert_mask_prob
      if sum(self.mask) == len(self.mask):
          self.mask[np.random.randint(len(self.mask))] = 0
  else:
      raise ValueError(...)
  self.mask = list(self.mask)
  \<close>
  Both \<^verbatim>\<open>random.randint\<close> calls have the lower bound 0, so the indices drawn are not
  negative and index from the front: \<open>nat\<close> reads them as list positions.
\<close>

definition bernoulli_mask :: "real \<Rightarrow> real list \<Rightarrow> nat list" where
  "bernoulli_mask p us = map (\<lambda>u. if u > p then 1 else 0) us"

definition ensure_zero :: "nat list \<Rightarrow> rand_state \<Rightarrow> py_error + (nat list \<times> rand_state)" where
  "ensure_zero msk rs =
     (if sum_list msk = length msk
      then (case np_random_randint (length msk) rs of
              Inl e \<Rightarrow> Inl e
            | Inr (j, rs) \<Rightarrow> Inr (msk[j := 0], rs))
      else Inr (msk, rs))"

fun correlation_loop ::
  "nat \<Rightarrow> nat list list \<Rightarrow> nat list \<Rightarrow> rand_state \<Rightarrow> py_error + (nat list \<times> rand_state)" where
  "correlation_loop 0 nb msk rs = Inr (msk, rs)"
| "correlation_loop (Suc k) nb msk rs =
     (case random_randint 0 (int (length msk) - 1) rs of
        Inl e \<Rightarrow> Inl e
      | Inr (index_to_change, rs) \<Rightarrow>
          if \<not> nat index_to_change < length nb then Inl IndexError
          else if length (nb ! nat index_to_change) > 0
          then (case random_randint 0 (int (length (nb ! nat index_to_change)) - 1) rs of
                  Inl e \<Rightarrow> Inl e
                | Inr (nbr_index, rs) \<Rightarrow>
                    if \<not> nat nbr_index < length msk then Inl IndexError
                    else correlation_loop k nb
                           (msk[nat index_to_change := msk ! nat nbr_index]) rs)
          else correlation_loop k nb msk rs)"

definition recreate_mask ::
  "externals \<Rightarrow> datapoint \<Rightarrow> rand_state \<Rightarrow> py_error + (datapoint \<times> rand_state)" where
  "recreate_mask ext d rs =
     (if \<not> bert_pretraining d then Inl Exception_raised
      else if bert_vocab_func d = Some ''substructure'' then recreate_mask_substructure ext d rs
      else
        (let num_targets = length (vocab_targets d) in
         if bert_mask_type d = Some ''cluster''
         then (case mask_cluster (float_div ext) (bert_mask_prob d) (nb_indices d) (set_pop ext)
                      num_targets rs of
                 Inl e \<Rightarrow> Inl e
               | Inr (msk, rs) \<Rightarrow> Inr (d\<lparr>mask := msk\<rparr>, rs))
         else if bert_mask_type d = Some ''correlation''
         then (let (us, rs) = np_random_rand num_targets rs;
                   msk = bernoulli_mask (bert_mask_prob d) us
               in case correlation_loop (length msk) (nb_indices d) msk rs of
                    Inl e \<Rightarrow> Inl e
                  | Inr (msk, rs) \<Rightarrow>
                      (case ensure_zero msk rs of
                         Inl e \<Rightarrow> Inl e
                       | Inr (msk, rs) \<Rightarrow> Inr (d\<lparr>mask := msk\<rparr>, rs)))
         else if bert_mask_type d = Some ''random''
         then (let (us, rs) = np_random_rand num_targets rs;
                   msk = bernoulli_mask (bert_mask_prob d) us
               in case ensure_zero msk rs of
                    Inl e \<Rightarrow> Inl e
                  | Inr (msk, rs) \<Rightarrow> Inr (d\<lparr>mask := msk\<rparr>, rs))
         else Inl ValueError))"

section \<open>MoleculeDataset\<close>

text \<open>
  \<^verbatim>\<open>
  def __init__(self, data):
      self.data = data
      self.bert_pretraining = self.data[0].bert_pretraining if len(self.data) > 0 else False
      self.bert_vocab_func = self.data[0].bert_vocab_func if len(self.data) > 0 else None
      self.kernel = self.data[0].kernel if len(self.data) > 0 else False
      if self.kernel:
          if len(self.data) % 2 == 1:
              self.data = self.data[:-1]
      ...
      self.features_size = len(self.data[0].features) \
          if len(self.data) > 0 and self.data[0].features is not None else None
      self.scaler = None
  \<close>
  The fields \<^verbatim>\<open>kernel_func\<close> (looked up outside \<^verbatim>\<open>data.py\<close>) and \<^verbatim>\<open>args\<close> (the
  configuration object) are read by none of the methods below and are left out. The type
  of the fitted scaler is a parameter.
\<close>

record 'sc dataset =
  data :: "datapoint list"
  bert_pretraining_ds :: bool
  bert_vocab_func_ds :: "string option"
  kernel_ds :: bool
  features_size :: "nat option"
  scaler :: "'sc option"

definition MoleculeDataset_init :: "datapoint list \<Rightarrow> 'sc dataset" where
  "MoleculeDataset_init xs =
     (let bert = (case xs of [] \<Rightarrow> False | d # _ \<Rightarrow> bert_pretraining d);
          vocab = (case xs of [] \<Rightarrow> None | d # _ \<Rightarrow> bert_vocab_func d);
          kern = (case xs of [] \<Rightarrow> False | d # _ \<Rightarrow> kernel d);
          xs = (if kern \<and> length xs mod 2 = 1 then butlast xs else xs);
          fsize = (case xs of [] \<Rightarrow> None
                   | d # _ \<Rightarrow> (case features d of None \<Rightarrow> None | Some f \<Rightarrow> Some (length f)))
      in \<lparr>data = xs, bert_pretraining_ds = bert, bert_vocab_func_ds = vocab, kernel_ds = kern,
          features_size = fsize, scaler = None\<rparr>)"

text \<open>
  \<^verbatim>\<open>
  def shuffle(self, seed=None):
      if seed is not None:
          random.seed(seed)
      random.shuffle(self.data)
      if self.bert_pretraining:
          for d in self.data:
              d.recreate_mask()
  \<close>
  \<^verbatim>\<open>random.shuffle\<close> is the standard library's loop
  \<^verbatim>\<open>for i in reversed(range(1, len(x))): j = randbelow(i + 1); x[i], x[j] = x[j], x[i]\<close>.
  The list is shuffled in place before any mask is regenerated, so the dataset holds the
  new order also when a \<^verbatim>\<open>recreate_mask\<close> raises: \<open>shuffle\<close> returns the dataset, the
  generator state and the exception raised, if any. The datapoints before the failing one
  have their new masks; what the failing call had written to its datapoint before it
  raised is not tracked.
\<close>

fun shuffle_loop :: "nat \<Rightarrow> 'a list \<Rightarrow> rand_state \<Rightarrow> 'a list \<times> rand_state" where
  "shuffle_loop 0 x rs = (x, rs)"
| "shuffle_loop (Suc k) x rs =
     (let (j, rs) = randbelow (Suc k + 1) rs
      in shuffle_loop k (x[Suc k := x ! j, j := x ! Suc k]) rs)"

definition random_shuffle :: "'a list \<Rightarrow> rand_state \<Rightarrow> 'a list \<times> rand_state" where
  "random_shuffle x rs = shuffle_loop (length x - 1) x rs"

definition random_seed :: "externals \<Rightarrow> int \<Rightarrow> rand_state \<Rightarrow> rand_state" where
  "random_seed ext seed rs = rs\<lparr>py_random := seed_state ext seed\<rparr>"

fun recreate_masks ::
  "externals \<Rightarrow> datapoint list \<Rightarrow> rand_state \<Rightarrow> datapoint list \<times> rand_state \<times> py_error option" where
  "recreate_masks ext [] rs = ([], rs, None)"
| "recreate_masks ext (d # rest) rs =
     (case recreate_mask ext d rs of
        Inl e \<Rightarrow> (d # rest, rs, Some e)
      | Inr (d', rs) \<Rightarrow>
          (let (rest', rs, err) = recreate_masks ext rest rs in (d' # rest', rs, err)))"

definition shuffle ::
  "externals \<Rightarrow> int option \<Rightarrow> 'sc dataset \<Rightarrow> rand_state
     \<Rightarrow> 'sc dataset \<times> rand_state \<times> py_error option" where
  "shuffle ext seed ds rs =
     (let rs = (case seed of None \<Rightarrow> rs | Some s \<Rightarrow> random_seed ext s rs);
          (xs, rs) = random_shuffle (data ds) rs
      in if bert_pretraining_ds ds
         then (let (xs, rs, err) = recreate_masks ext xs rs in (ds\<lparr>data := xs\<rparr>, rs, err))
         else (ds\<lparr>data := xs\<rparr>, rs, None))"

text \<open>
  \<^verbatim>\<open>
  def chunk(self, num_chunks, seed=None):
      self.shuffle(seed)
      datasets = []
      chunk_len = math.ceil(len(self.data) / num_chunks)
      for i in range(num_chunks):
          datasets.append(MoleculeDataset(self.data[i * chunk_len:(i + 1) * chunk_len]))
      return datasets
  \<close>
  The quotient is taken in the reals. A slice \<^verbatim>\<open>x[a:b]\<close> with \<open>0 \<le> a \<le> b\<close> is
  \<open>take (b - a) (drop a x)\<close>. A negative \<open>num_chunks\<close> gives an empty \<^verbatim>\<open>range\<close>.
\<close>

definition py_slice :: "'a list \<Rightarrow> nat \<Rightarrow> nat \<Rightarrow> 'a list" where
  "py_slice x a b = take (b - a) (drop a x)"

definition chunk ::
  "externals \<Rightarrow> int \<Rightarrow> int option \<Rightarrow> 'sc dataset \<Rightarrow> rand_state
     \<Rightarrow> py_error + ('sc dataset list \<times> 'sc dataset \<times> rand_state)" where
  "chunk ext num_chunks seed ds rs =
     (case shuffle ext seed ds rs of
        (ds, rs, Some e) \<Rightarrow> Inl e
      | (ds, rs, None) \<Rightarrow>
          if num_chunks = 0 then Inl ZeroDivisionError
          else if num_chunks < 0 then Inr ([], ds, rs)
          else
            (let chunk_len = nat \<lceil>real (length (data ds)) / real_of_int num_chunks\<rceil>
             in Inr (map (\<lambda>i. MoleculeDataset_init
                                (py_slice (data ds) (i * chunk_len) ((i + 1) * chunk_len)))
                       [0..<nat num_chunks],
                     ds, rs)))"

text \<open>
  \<^verbatim>\<open>
  def normalize_features(self, scaler=None):
      if len(self.data) == 0 or self.data[0].features is None:
          return None
      if scaler is not None:
          self.scaler = scaler
      else:
          if self.scaler is not None:
              scaler = self.scaler
          else:
              features = np.vstack([d.features for d in self.data])
              scaler = StandardScaler(replace_nan_token=0)
              scaler.fit(features)
              self.scaler = scaler
      for d in self.data:
          d.features = scaler.transform(d.features.reshape(1, -1))[0]
      return scaler
  \<close>
  The class \<^verbatim>\<open>StandardScaler\<close> is not in \<^verbatim>\<open>data.py\<close>: \<open>fit\<close> (construct and fit on the
  stacked matrix) and \<open>transform\<close> (transform one row) are parameters. \<^verbatim>\<open>np.vstack\<close>
  makes every entry of its argument a matrix of one row (\<^verbatim>\<open>np.atleast_2d\<close>) and raises
  \<open>ValueError\<close> when the rows do not have one length, or when there is none; the
  features \<open>None\<close> of a datapoint without features become the row \<open>[None]\<close>, of length 1.
  In the loop, \<open>None\<close> has no \<^verbatim>\<open>reshape\<close> (\<open>AttributeError\<close>). When the loop raises, the
  scaler is already stored and the datapoints before the failing one are already
  rescaled: an exception is returned with the dataset as the call left it.
\<close>

definition atleast_2d :: "real option list option \<Rightarrow> real option list" where
  "atleast_2d f = (case f of None \<Rightarrow> [None] | Some v \<Rightarrow> v)"

definition vstack :: "real option list option list \<Rightarrow> py_error + real option list list" where
  "vstack fs =
     (case map atleast_2d fs of
        [] \<Rightarrow> Inl ValueError
      | r # rows \<Rightarrow>
          if \<forall>r' \<in> set rows. length r' = length r then Inr (r # rows)
          else Inl ValueError)"

fun transform_loop ::
  "(real option list \<Rightarrow> real option list) \<Rightarrow> datapoint list
     \<Rightarrow> py_error option \<times> datapoint list" where
  "transform_loop t [] = (None, [])"
| "transform_loop t (d # rest) =
     (case features d of
        None \<Rightarrow> (Some AttributeError, d # rest)
      | Some v \<Rightarrow>
          (case transform_loop t rest of
             (e, rest') \<Rightarrow> (e, d\<lparr>features := Some (t v)\<rparr> # rest')))"

definition normalize_features ::
  "(real option list list \<Rightarrow> 'sc) \<Rightarrow> ('sc \<Rightarrow> real option list \<Rightarrow> real option list)
     \<Rightarrow> 'sc option \<Rightarrow> 'sc dataset
     \<Rightarrow> (py_error \<times> 'sc dataset) + ('sc option \<times> 'sc dataset)" where
  "normalize_features fit transform scaler_arg ds =
     (if (case data ds of [] \<Rightarrow> True | d # _ \<Rightarrow> features d = None) then Inr (None, ds)
      else
        (case (case scaler_arg of
                 Some sc \<Rightarrow> Inr (sc, ds\<lparr>scaler := Some sc\<rparr>)
               | None \<Rightarrow>
                   (case scaler ds of
                      Some sc \<Rightarrow> Inr (sc, ds)
                    | None \<Rightarrow>
                        (case vstack (map features (data ds)) of
                           Inl e \<Rightarrow> Inl (e, ds)
                         | Inr X \<Rightarrow> Inr (fit X, ds\<lparr>scaler := Some (fit X)\<rparr>)))) of
           Inl e \<Rightarrow> Inl e
         | Inr (sc, ds) \<Rightarrow>
             (case transform_loop (transform sc) (data ds) of
                (Some e, xs) \<Rightarrow> Inl (e, ds\<lparr>data := xs\<rparr>)
              | (None, xs) \<Rightarrow> Inr (Some sc, ds\<lparr>data := xs\<rparr>))))"

section \<open>StandardScaler\<close>

text \<open>
  Modelled from the spec: the class \<^verbatim>\<open>StandardScaler\<close> of \<^verbatim>\<open>chemprop/data/scaler.py\<close>,
  which is not among the source files. The spec says of it: "fit a new per-feature
  mean/std transform (treating the missing sentinel as 0) over the stacked feature
  matrix. Apply transform to every datapoint's feature vector". So fitting computes, for
  each column, the mean and the standard deviation of the entries with \<open>None\<close> read as 0,
  and transforming a row subtracts the column's mean from each entry and divides by the
  column's deviation. The spec does not say what happens for a deviation of 0; the model
  is used at deviations that are not 0 only.
\<close>

record StandardScaler =
  means :: "real list"
  stds :: "real list"

definition missing_as_zero :: "real option \<Rightarrow> real" where
  "missing_as_zero x = (case x of None \<Rightarrow> 0 | Some v \<Rightarrow> v)"

definition mean :: "real list \<Rightarrow> real" where
  "mean xs = sum_list xs / real (length xs)"

definition std :: "real list \<Rightarrow> real" where
  "std xs = sqrt (mean (map (\<lambda>x. (x - mean xs) ^ 2) xs))"

definition columns :: "real option list list \<Rightarrow> real list list" where
  "columns X =
     (case X of
        [] \<Rightarrow> []
      | r # _ \<Rightarrow> map (\<lambda>j. map (\<lambda>row. missing_as_zero (row ! j)) X) [0..<length r])"

definition StandardScaler_fit :: "real option list list \<Rightarrow> StandardScaler" where
  "StandardScaler_fit X = \<lparr>means = map mean (columns X), stds = map std (columns X)\<rparr>"

definition StandardScaler_transform :: "StandardScaler \<Rightarrow> real option list \<Rightarrow> real option list" where
  "StandardScaler_transform sc row =
     map (\<lambda>(x, m, s). Some ((missing_as_zero x - m) / s)) (zip row (zip (means sc) (stds sc)))"

text \<open>
  Fixtures for the examples: a datapoint with a name, and generators that return 0. The
  masking probability 0.125 and the draw 0.5 are floats, and the quotient of 0.125 by the
  cluster sizes of the examples (1 and 2) is a float, so the float division is exact
  there.
\<close>

definition example_datapoint :: "string \<Rightarrow> datapoint" where
  "example_datapoint name =
     \<lparr>smiles = name, num_atoms = 2, features = None, kernel = False, bert_pretraining = False,
      bert_mask_prob = 1 / 8, bert_mask_type = Some ''cluster'', bert_vocab_func = None,
      vocab_targets = [0, 0], nb_indices = [[1], [0]], substructures = [],
      substructure_index_map = [], mask = []\<rparr>"

definition example_externals :: externals where
  "example_externals =
     \<lparr>get_substructures = (\<lambda>d rs. ([], rs)), w2i_feature = (\<lambda>d s. 0),
      seed_state = (\<lambda>seed k. 0), set_pop = (\<lambda>xs. 0), float_div = (\<lambda>x k. x / real k)\<rparr>"

definition example_rand_state :: rand_state where
  "example_rand_state = \<lparr>py_random = (\<lambda>k. 0), np_random = (\<lambda>k. 0), np_uniform = (\<lambda>k. 1 / 2)\<rparr>"

text \<open>
  The feature vectors of the datapoints after a first and after a second call of
  \<^verbatim>\<open>normalize_features()\<close> with no scaler supplied.
\<close>

definition normalize_features_twice ::
  "(real option list list \<Rightarrow> 'sc) \<Rightarrow> ('sc \<Rightarrow> real option list \<Rightarrow> real option list)
     \<Rightarrow> 'sc dataset
     \<Rightarrow> py_error + (real option list option list \<times> real option list option list)" where
  "normalize_features_twice fit transform ds =
     (case normalize_features fit transform None ds of
        Inl (e, ds0) \<Rightarrow> Inl e
      | Inr (sc1, ds1) \<Rightarrow>
          (case normalize_features fit transform None ds1 of
             Inl (e, ds0) \<Rightarrow> Inl e
           | Inr (sc2, ds2) \<Rightarrow> Inr (map features (data ds1), map features (data ds2))))"

definition example_features_dataset :: "StandardScaler dataset" where
  "example_features_dataset =
     MoleculeDataset_init
       [(example_datapoint ''C'')\<lparr>features := Some [Some 1]\<rparr>,
        (example_datapoint ''CC'')\<lparr>features := Some [Some 3]\<rparr>]"

text \<open>
  A datapoint without the fields that \<open>recreate_mask\<close> writes: what identifies the
  datapoint when the order of a dataset is compared.
\<close>

definition unmasked :: "datapoint \<Rightarrow> datapoint" where
  "unmasked d =
     d\<lparr>substructures := [], substructure_index_map := [], mask := [], vocab_targets := []\<rparr>"

definition example_dataset :: "string list \<Rightarrow> unit dataset" where
  "example_dataset names = MoleculeDataset_init (map example_datapoint names)"

text \<open>
  The neighbour lists are those of a graph on \<open>n\<close> atoms: one list per atom, each a
  duplicate-free list of atoms. A mask with the entries of \<open>cluster\<close> set to 0.
\<close>

definition adjacency :: "nat list list \<Rightarrow> nat \<Rightarrow> bool" where
  "adjacency nb n =
     (length nb = n \<and> (\<forall>a<n. distinct (nb ! a) \<and> set (nb ! a) \<subseteq> {0..<n}))"

definition zeroed :: "nat list \<Rightarrow> nat list \<Rightarrow> nat list" where
  "zeroed cluster msk = map (\<lambda>i. if i \<in> set cluster then 0 else msk ! i) [0..<length msk]"

section \<open>Properties of SparseNoneArray\<close>

lemma map_of_enumerate_gen:
  "map_of (filter (\<lambda>(i, x). x \<noteq> None) (map (\<lambda>(i, x). (int i, x)) (enumerate n targets))) k =
     (if int n \<le> k \<and> k < int (n + length targets) \<and> targets ! (nat k - n) \<noteq> None
      then Some (targets ! (nat k - n)) else None)"
proof (induction targets arbitrary: n)
  case Nil
  then show ?case by simp
next
  case (Cons x xs)
  show ?case
  proof (cases "k = int n")
    case True
    then show ?thesis using Cons [of "Suc n"] by auto
  next
    case False
    then have "int n \<le> k \<Longrightarrow> nat k - n = Suc (nat k - Suc n)" by linarith
    then show ?thesis using False Cons [of "Suc n"] by auto
  qed
qed

lemma map_of_enumerate_set:
  "map_of (enumerate_set targets) k =
     (if 0 \<le> k \<and> k < int (length targets) \<and> targets ! nat k \<noteq> None
      then Some (targets ! nat k) else None)"
  unfolding enumerate_set_def using map_of_enumerate_gen [of 0 targets k] by simp



lemma getitem_sna_view:
  "getitem_sna a i =
     (if int (length_sna a) \<le> i then Inl IndexError
      else Inr (view a i, a\<lparr>targets_sna := snd (defaultdict_get (targets_sna a) i)\<rparr>))"
  by (auto simp: getitem_sna_def defaultdict_get_def view_def split: option.splits)

lemma getitem_sna_preserves:
  assumes "getitem_sna a i = Inr (v, a')"
  shows "view a' = view a \<and> length_sna a' = length_sna a"
  using assms
  by (auto simp: getitem_sna_def defaultdict_get_def view_def fun_eq_iff
      split: option.splits if_splits)

lemma lookups_preserves: "view (lookups a js) = view a \<and> length_sna (lookups a js) = length_sna a"
proof (induction js arbitrary: a)
  case Nil
  then show ?case by simp
next
  case (Cons j js)
  show ?case
  proof (cases "getitem_sna a j")
    case (Inl e)
    then show ?thesis using Cons by simp
  next
    case (Inr r)
    obtain v a' where r: "r = (v, a')" by (cases r)
    from Inr r getitem_sna_preserves [of a j v a'] Cons [of a'] show ?thesis by simp
  qed
qed

lemma view_init:
  "view (SparseNoneArray_init targets) k =
     (if 0 \<le> k \<and> k < int (length targets) then targets ! nat k else None)"
  by (simp add: view_def SparseNoneArray_init_def map_of_enumerate_set)

lemma getitem_after_lookups:
  "getitem_sna (lookups (SparseNoneArray_init targets) js) i =
     (if int (length targets) \<le> i then Inl IndexError
      else Inr (if 0 \<le> i then targets ! nat i else None,
                (lookups (SparseNoneArray_init targets) js)
                  \<lparr>targets_sna :=
                     snd (defaultdict_get (targets_sna (lookups (SparseNoneArray_init targets) js)) i)\<rparr>))"
proof -
  have "length_sna (SparseNoneArray_init targets) = length targets"
    by (simp add: SparseNoneArray_init_def)
  with lookups_preserves [of "SparseNoneArray_init targets" js]
  have "view (lookups (SparseNoneArray_init targets) js) = view (SparseNoneArray_init targets)"
    and "length_sna (lookups (SparseNoneArray_init targets) js) = length targets"
    by simp_all
  then show ?thesis
    by (simp add: getitem_sna_view view_init)
qed

lemma len_after_lookups: "len_sna (lookups (SparseNoneArray_init targets) js) = length targets"
  using lookups_preserves [of "SparseNoneArray_init targets" js]
  by (simp add: len_sna_def SparseNoneArray_init_def)

text \<open>
  Claim C8. The sparse structure built from a dense target list has the length of the
  list; at an in-range position it returns the entry of the list (the stored value when
  set, \<open>None\<close> when unset); at every position at or beyond its length it raises
  \<open>IndexError\<close>. This holds for the object as built and after any sequence \<open>js\<close> of
  earlier lookups. For \<open>targets = [1.0, None, 3.0]\<close>: \<open>sparse[0] = 1.0\<close>, \<open>sparse[1]\<close> is
  \<open>None\<close>, \<open>sparse[3]\<close> raises and \<open>len(sparse) = 3\<close>.
\<close>

theorem sparse_none_array_lookup:
  "len_sna (lookups (SparseNoneArray_init targets) js) = length targets
   \<and> (\<forall>i. i < length targets \<longrightarrow>
         returned (getitem_sna (lookups (SparseNoneArray_init targets) js) (int i))
           = Some (targets ! i))
   \<and> (\<forall>i. int (length targets) \<le> i \<longrightarrow>
         getitem_sna (lookups (SparseNoneArray_init targets) js) i = Inl IndexError)"
  by (simp add: getitem_after_lookups len_after_lookups returned_def)

theorem sparse_none_array_lookup_witness:
  "len_sna (lookups (SparseNoneArray_init [Some 1, None, Some 3]) []) = 3
   \<and> returned (getitem_sna (lookups (SparseNoneArray_init [Some 1, None, Some 3]) []) 0)
        = Some (Some 1)
   \<and> returned (getitem_sna (lookups (SparseNoneArray_init [Some 1, None, Some 3]) []) 1)
        = Some None
   \<and> getitem_sna (lookups (SparseNoneArray_init [Some 1, None, Some 3]) []) 3 = Inl IndexError"
  using sparse_none_array_lookup [of "[Some 1, None, Some 3]" "[]"]
  by (auto dest: spec [where x = 0] spec [where x = 1] spec [where x = 3])

text \<open>
  Claim C10. For every target list and every integer index \<open>i\<close>, indexing raises (an
  \<open>IndexError\<close>) if and only if \<open>i\<close> is at least the length; every negative index does
  not raise and returns \<open>None\<close>: there is no wrap-around into the stored values.
\<close>

theorem sparse_none_array_raises_iff:
  "raised (getitem_sna (lookups (SparseNoneArray_init targets) js) i)
      = (if int (length targets) \<le> i then Some IndexError else None)
   \<and> (i < 0 \<longrightarrow>
        returned (getitem_sna (lookups (SparseNoneArray_init targets) js) i) = Some None)"
  by (simp add: getitem_after_lookups returned_def raised_def)

theorem sparse_none_array_raises_iff_witness:
  "raised (getitem_sna (lookups (SparseNoneArray_init [Some 1, None, Some 3]) [1, - 1]) (- 1))
     = None
   \<and> returned (getitem_sna (lookups (SparseNoneArray_init [Some 1, None, Some 3]) [1, - 1]) (- 1))
       = Some None
   \<and> raised (getitem_sna (lookups (SparseNoneArray_init [Some 1, None, Some 3]) [1, - 1]) 3)
       = Some IndexError"
  using sparse_none_array_raises_iff [of "[Some 1, None, Some 3]" "[1, - 1]" "- 1"]
    sparse_none_array_raises_iff [of "[Some 1, None, Some 3]" "[1, - 1]" 3]
  by (simp del: lookups.simps)

section \<open>Properties of substructure_index_mapping\<close>

lemma filter_nonempty_length: "0 < length (filter P xs) \<longleftrightarrow> (\<exists>x\<in>set xs. P x)"
  by (induction xs) auto

lemma in_atoms_iff: "a \<in> atoms_in_substructures subs \<longleftrightarrow> 0 < length (filter (\<lambda>s. a \<in> set s) subs)"
  unfolding filter_nonempty_length by (auto simp: atoms_in_substructures_def)

lemma atoms_Cons: "atoms_in_substructures (s # ss) = set s \<union> atoms_in_substructures ss"
  by (simp add: atoms_in_substructures_def)

lemma overlapping_alt:
  "overlapping ss \<longleftrightarrow> (\<exists>a. 1 < length (filter (\<lambda>t. a \<in> set t) ss))"
proof -
  have "\<And>a. 1 < length (filter (\<lambda>t. a \<in> set t) ss) \<Longrightarrow> a \<in> atoms_in_substructures ss"
    unfolding in_atoms_iff by linarith
  then show ?thesis unfolding overlapping_def by blast
qed

lemma overlapping_Cons:
  "overlapping (s # ss) \<longleftrightarrow> overlapping ss \<or> set s \<inter> atoms_in_substructures ss \<noteq> {}"
proof -
  have "overlapping (s # ss) \<longleftrightarrow>
          (\<exists>a. 1 < (if a \<in> set s then 1 else 0) + length (filter (\<lambda>t. a \<in> set t) ss))"
    unfolding overlapping_alt by simp
  also have "\<dots> \<longleftrightarrow> (\<exists>a. 1 < length (filter (\<lambda>t. a \<in> set t) ss))
                    \<or> (\<exists>a. a \<in> set s \<and> 0 < length (filter (\<lambda>t. a \<in> set t) ss))"
  proof -
    have "\<And>a. 1 < (if a \<in> set s then 1 else 0) + length (filter (\<lambda>t. a \<in> set t) ss)
           \<longleftrightarrow> 1 < length (filter (\<lambda>t. a \<in> set t) ss)
               \<or> (a \<in> set s \<and> 0 < length (filter (\<lambda>t. a \<in> set t) ss))"
      by (simp del: length_greater_0_conv) linarith
    then show ?thesis by blast
  qed
  also have "\<dots> \<longleftrightarrow> overlapping ss \<or> set s \<inter> atoms_in_substructures ss \<noteq> {}"
    unfolding overlapping_alt using in_atoms_iff [of _ ss] by blast
  finally show ?thesis .
qed

lemma finite_atoms: "finite (atoms_in_substructures subs)"
  by (simp add: atoms_in_substructures_def)

lemma card_atoms_le: "card (atoms_in_substructures subs) \<le> sum_list (map (\<lambda>s. card (set s)) subs)"
proof (induction subs)
  case Nil
  then show ?case by (simp add: atoms_in_substructures_def)
next
  case (Cons s ss)
  have "card (set s \<union> atoms_in_substructures ss) \<le> card (set s) + card (atoms_in_substructures ss)"
    by (rule card_Un_le)
  with Cons show ?case by (simp add: atoms_Cons)
qed

lemma sum_card_eq_iff:
  "sum_list (map (\<lambda>s. card (set s)) subs) = card (atoms_in_substructures subs)
     \<longleftrightarrow> \<not> overlapping subs"
proof (induction subs)
  case Nil
  then show ?case by (simp add: atoms_in_substructures_def overlapping_def)
next
  case (Cons s ss)
  let ?U = "atoms_in_substructures ss"
  have ui: "card (set s \<union> ?U) + card (set s \<inter> ?U) = card (set s) + card ?U"
    using card_Un_Int [of "set s" ?U] by (simp add: finite_atoms)
  have le: "card ?U \<le> sum_list (map (\<lambda>s. card (set s)) ss)"
    by (rule card_atoms_le)
  have z: "card (set s \<inter> ?U) = 0 \<longleftrightarrow> set s \<inter> ?U = {}"
    by (simp add: finite_atoms)
  have e1: "sum_list (map (\<lambda>s. card (set s)) (s # ss))
              = card (set s) + sum_list (map (\<lambda>s. card (set s)) ss)"
    by simp
  have "sum_list (map (\<lambda>s. card (set s)) (s # ss)) = card (atoms_in_substructures (s # ss))
          \<longleftrightarrow> sum_list (map (\<lambda>s. card (set s)) ss) = card ?U \<and> card (set s \<inter> ?U) = 0"
    unfolding e1 atoms_Cons using ui le by linarith
  then show ?case using Cons z by (simp add: overlapping_Cons)
qed

lemma assign_remaining_prefix:
  assumes "distinct xs" "n \<le> length xs" "\<forall>x\<in>set xs. x < length m"
  shows "length (fold (\<lambda>i m. m[xs ! i := Some i]) [0..<n] m) = length m
       \<and> (\<forall>i<n. fold (\<lambda>i m. m[xs ! i := Some i]) [0..<n] m ! (xs ! i) = Some i)
       \<and> (\<forall>a. a \<notin> set (take n xs) \<longrightarrow> fold (\<lambda>i m. m[xs ! i := Some i]) [0..<n] m ! a = m ! a)"
  using assms(2)
proof (induction n)
  case 0
  then show ?case by simp
next
  case (Suc n)
  let ?f = "fold (\<lambda>i m. m[xs ! i := Some i]) [0..<n] m"
  have ih: "length ?f = length m" "\<forall>i<n. ?f ! (xs ! i) = Some i"
    "\<forall>a. a \<notin> set (take n xs) \<longrightarrow> ?f ! a = m ! a"
    using Suc by simp_all
  have step: "fold (\<lambda>i m. m[xs ! i := Some i]) [0..<Suc n] m = ?f[xs ! n := Some n]"
    by simp
  have nlt: "n < length xs" using Suc.prems by simp
  have inr: "xs ! n < length m" using assms(3) nlt by simp
  have neq: "\<And>i. i < n \<Longrightarrow> xs ! i \<noteq> xs ! n"
    using assms(1) nlt by (simp add: nth_eq_iff_index_eq)
  have tk: "set (take (Suc n) xs) = insert (xs ! n) (set (take n xs))"
    using nlt by (simp add: take_Suc_conv_app_nth)
  show ?case
    unfolding step
  proof (intro conjI allI impI)
    show "length (?f[xs ! n := Some n]) = length m" using ih by simp
  next
    fix i assume "i < Suc n"
    then show "?f[xs ! n := Some n] ! (xs ! i) = Some i"
      using ih inr neq [of i] by (cases "i = n") (auto simp: nth_list_update)
  next
    fix a assume "a \<notin> set (take (Suc n) xs)"
    then show "?f[xs ! n := Some n] ! a = m ! a"
      using ih tk by (simp add: nth_list_update)
  qed
qed

lemma assign_remaining_spec:
  assumes "distinct xs" "\<forall>x\<in>set xs. x < length m"
  shows "length (assign_remaining xs m) = length m
       \<and> (\<forall>i<length xs. assign_remaining xs m ! (xs ! i) = Some i)
       \<and> (\<forall>a. a \<notin> set xs \<longrightarrow> assign_remaining xs m ! a = m ! a)"
  using assign_remaining_prefix [OF assms(1) le_refl assms(2)]
  unfolding assign_remaining_def by simp

lemma assign_atoms_spec:
  assumes "\<forall>a\<in>set as. a < length m"
  shows "\<exists>m'. assign_atoms v as m = Inr m' \<and> length m' = length m
           \<and> (\<forall>a. m' ! a = (if a \<in> set as then Some v else m ! a))"
  using assms
proof (induction as arbitrary: m)
  case Nil
  then show ?case by simp
next
  case (Cons x xs)
  then have "\<forall>a\<in>set xs. a < length (m[x := Some v])" by simp
  from Cons.IH [OF this] obtain m' where
    m': "assign_atoms v xs (m[x := Some v]) = Inr m'" "length m' = length m"
        "\<forall>a. m' ! a = (if a \<in> set xs then Some v else m[x := Some v] ! a)"
    by auto
  have "x < length m" using Cons.prems by simp
  then show ?case using m' by (auto simp: nth_list_update)
qed

lemma assign_atoms_raises:
  assumes "\<exists>a\<in>set as. \<not> a < length m"
  shows "assign_atoms v as m = Inl IndexError"
  using assms by (induction as arbitrary: m) auto

lemma assign_substructures_spec:
  assumes "\<not> overlapping ss" "atoms_in_substructures ss \<subseteq> {0..<length m}"
  shows "\<exists>m'. assign_substructures r i ss m = Inr m' \<and> length m' = length m
           \<and> (\<forall>j<length ss. \<forall>a\<in>set (ss ! j). m' ! a = Some (r + i + j))
           \<and> (\<forall>a. a \<notin> atoms_in_substructures ss \<longrightarrow> m' ! a = m ! a)"
  using assms
proof (induction ss arbitrary: i m)
  case Nil
  then show ?case by simp
next
  case (Cons s rest)
  have no: "\<not> overlapping rest" and dj: "set s \<inter> atoms_in_substructures rest = {}"
    using Cons.prems(1) by (simp_all add: overlapping_Cons)
  have "\<forall>a\<in>set s. a < length m" using Cons.prems(2) by (auto simp: atoms_Cons)
  from assign_atoms_spec [OF this, of "r + i"] obtain m1 where
    m1: "assign_atoms (r + i) s m = Inr m1" "length m1 = length m"
        "\<forall>a. m1 ! a = (if a \<in> set s then Some (r + i) else m ! a)"
    by blast
  have "atoms_in_substructures rest \<subseteq> {0..<length m1}"
    using Cons.prems(2) m1(2) by (auto simp: atoms_Cons)
  from Cons.IH [OF no this, of "Suc i"] obtain m' where
    m': "assign_substructures r (Suc i) rest m1 = Inr m'" "length m' = length m1"
        "\<forall>j<length rest. \<forall>a\<in>set (rest ! j). m' ! a = Some (r + Suc i + j)"
        "\<forall>a. a \<notin> atoms_in_substructures rest \<longrightarrow> m' ! a = m1 ! a"
    by blast
  have "\<forall>j<length (s # rest). \<forall>a\<in>set ((s # rest) ! j). m' ! a = Some (r + i + j)"
  proof (intro allI impI ballI)
    fix j a assume j: "j < length (s # rest)" and a: "a \<in> set ((s # rest) ! j)"
    show "m' ! a = Some (r + i + j)"
    proof (cases j)
      case 0
      then have "a \<in> set s" using a by simp
      then have "a \<notin> atoms_in_substructures rest" using dj by auto
      then show ?thesis using m'(4) m1(3) \<open>a \<in> set s\<close> 0 by simp
    next
      case (Suc k)
      then show ?thesis using m'(3) j a by simp
    qed
  qed
  moreover have "\<forall>a. a \<notin> atoms_in_substructures (s # rest) \<longrightarrow> m' ! a = m ! a"
    using m'(4) m1(3) by (simp add: atoms_Cons)
  ultimately show ?case using m1 m' by simp
qed

lemma length_filter_sort_key: "length (filter P (sort_key f xs)) = length (filter P xs)"
proof -
  have "mset (filter P (sort_key f xs)) = mset (filter P xs)"
    by (simp only: mset_filter mset_sort)
  then show ?thesis by (metis size_mset)
qed

lemma overlapping_ordered:
  "overlapping (sort_key hd (map (\<lambda>s. sorted_list_of_set (set s)) subs)) \<longleftrightarrow> overlapping subs"
  unfolding overlapping_alt length_filter_sort_key
  by (simp add: filter_map comp_def)

lemma atoms_ordered:
  "atoms_in_substructures (sort_key hd (map (\<lambda>s. sorted_list_of_set (set s)) subs))
     = atoms_in_substructures subs"
  by (simp add: atoms_in_substructures_def)

lemma hd_sorted_list_of_set:
  assumes "s \<noteq> []"
  shows "hd (sorted_list_of_set (set s)) = Min (set s)" "sorted_list_of_set (set s) \<noteq> []"
proof -
  have "sorted_list_of_set (set s) = Min (set s) # sorted_list_of_set (set s - {Min (set s)})"
    using assms by (intro sorted_list_of_set_nonempty) simp_all
  then show "hd (sorted_list_of_set (set s)) = Min (set s)" "sorted_list_of_set (set s) \<noteq> []"
    by (metis list.sel(1), metis list.distinct(1))
qed

lemma substructure_index_mapping_spec:
  assumes no: "\<not> overlapping subs" and ne: "\<forall>s\<in>set subs. s \<noteq> []"
    and rng: "atoms_in_substructures subs \<subseteq> {0..<N}"
  shows "\<exists>m. substructure_index_mapping N subs = Inr m \<and> length m = N
        \<and> (\<forall>i<num_remaining N subs.
              m ! (sorted_list_of_set ({0..<N} - atoms_in_substructures subs) ! i) = Some i)
        \<and> (\<forall>j<length subs.
              \<forall>a\<in>set (sort_key hd (map (\<lambda>s. sorted_list_of_set (set s)) subs) ! j).
                m ! a = Some (num_remaining N subs + j))"
proof -
  let ?rao = "sorted_list_of_set ({0..<N} - atoms_in_substructures subs)"
  let ?ord = "sort_key hd (map (\<lambda>s. sorted_list_of_set (set s)) subs)"
  let ?m0 = "assign_remaining ?rao (replicate N None)"
  have len: "length ?rao = num_remaining N subs"
    by (simp add: num_remaining_def)
  have "\<forall>x\<in>set ?rao. x < length (replicate N (None :: nat option))" by simp
  from assign_remaining_spec [OF _ this]
  have m0: "length ?m0 = N" "\<forall>i<length ?rao. ?m0 ! (?rao ! i) = Some i"
    by simp_all
  have "atoms_in_substructures ?ord \<subseteq> {0..<length ?m0}"
    using rng m0(1) by (simp only: atoms_ordered)
  from assign_substructures_spec [OF _ this, of "length ?rao" 0] no
  obtain m where
    m: "assign_substructures (length ?rao) 0 ?ord ?m0 = Inr m" "length m = length ?m0"
       "\<forall>j<length ?ord. \<forall>a\<in>set (?ord ! j). m ! a = Some (length ?rao + 0 + j)"
       "\<forall>a. a \<notin> atoms_in_substructures ?ord \<longrightarrow> m ! a = ?m0 ! a"
    unfolding overlapping_ordered by blast
  have nonempty: "[] \<notin> set (map (\<lambda>s. sorted_list_of_set (set s)) subs)"
  proof
    assume "[] \<in> set (map (\<lambda>s. sorted_list_of_set (set s)) subs)"
    then obtain s where "s \<in> set subs" "sorted_list_of_set (set s) = []"
      by (metis (no_types, lifting) imageE list.set_map)
    then show False using ne hd_sorted_list_of_set(2) by blast
  qed
  have eq: "sum_list (map (\<lambda>s. card (set s)) subs) = card (atoms_in_substructures subs)"
    using no sum_card_eq_iff by blast
  have run: "substructure_index_mapping N subs = Inr m"
    unfolding substructure_index_mapping_def
    by (simp only: Let_def eq nonempty m(1) if_False not_not simp_thms)
  have "\<forall>i<length ?rao. m ! (?rao ! i) = Some i"
  proof (intro allI impI)
    fix i assume i: "i < length ?rao"
    then have "?rao ! i \<in> set ?rao" by (rule nth_mem)
    then have "?rao ! i \<notin> atoms_in_substructures subs" by simp
    then have "m ! (?rao ! i) = ?m0 ! (?rao ! i)" using m(4) unfolding atoms_ordered by blast
    then show "m ! (?rao ! i) = Some i" using m0(2) i by simp
  qed
  then show ?thesis using run m(2,3) m0(1) len by simp
qed

lemma assign_substructures_raises:
  assumes "\<exists>a\<in>atoms_in_substructures ss. \<not> a < length m"
  shows "assign_substructures r i ss m = Inl IndexError"
  using assms
proof (induction ss arbitrary: i m)
  case Nil
  then show ?case by (simp add: atoms_in_substructures_def)
next
  case (Cons s rest)
  show ?case
  proof (cases "\<exists>a\<in>set s. \<not> a < length m")
    case True
    then show ?thesis by (simp add: assign_atoms_raises)
  next
    case False
    then have "\<forall>a\<in>set s. a < length m" by blast
    from assign_atoms_spec [OF this, of "r + i"] obtain m1 where
      m1: "assign_atoms (r + i) s m = Inr m1" "length m1 = length m" by blast
    have "\<exists>a\<in>atoms_in_substructures rest. \<not> a < length m1"
      using Cons.prems False m1(2) by (auto simp: atoms_Cons)
    from Cons.IH [OF this] show ?thesis using m1(1) by simp
  qed
qed

lemma substructure_index_mapping_overlap:
  assumes "overlapping subs"
  shows "substructure_index_mapping N subs = Inl AssertionError"
proof -
  have "sum_list (map (\<lambda>s. card (set s)) subs) \<noteq> card (atoms_in_substructures subs)"
    using assms sum_card_eq_iff by blast
  then show ?thesis unfolding substructure_index_mapping_def
    by (simp only: Let_def simp_thms if_True)
qed

lemma substructure_index_mapping_index_error:
  assumes no: "\<not> overlapping subs"
    and bad: "[] \<in> set subs \<or> \<not> atoms_in_substructures subs \<subseteq> {0..<N}"
  shows "substructure_index_mapping N subs = Inl IndexError"
proof -
  let ?rao = "sorted_list_of_set ({0..<N} - atoms_in_substructures subs)"
  let ?each = "map (\<lambda>s. sorted_list_of_set (set s)) subs"
  let ?m0 = "assign_remaining ?rao (replicate N None)"
  have eq: "sum_list (map (\<lambda>s. card (set s)) subs) = card (atoms_in_substructures subs)"
    using no sum_card_eq_iff by blast
  show ?thesis
  proof (cases "[] \<in> set ?each")
    case True
    then show ?thesis unfolding substructure_index_mapping_def
      by (simp only: Let_def eq if_True if_False not_not simp_thms)
  next
    case False
    have "[] \<notin> set subs"
    proof
      assume "[] \<in> set subs"
      then have "[] \<in> set ?each" by force
      then show False using False by simp
    qed
    then have out: "\<not> atoms_in_substructures subs \<subseteq> {0..<N}" using bad by blast
    have "\<forall>x\<in>set ?rao. x < length (replicate N (None :: nat option))" by simp
    from assign_remaining_spec [OF _ this] have "length ?m0 = N" by simp
    then have "\<exists>a\<in>atoms_in_substructures (sort_key hd ?each). \<not> a < length ?m0"
      using out unfolding atoms_ordered by auto
    from assign_substructures_raises [OF this]
    have "assign_substructures (length ?rao) 0 (sort_key hd ?each) ?m0 = Inl IndexError" .
    then show ?thesis unfolding substructure_index_mapping_def
      using False by (simp only: Let_def eq if_False not_not simp_thms)
  qed
qed

lemma substructure_index_mapping_shape:
  assumes no: "\<not> overlapping subs" and ne: "\<forall>s\<in>set subs. s \<noteq> []"
    and rng: "atoms_in_substructures subs \<subseteq> {0..<N}"
  shows "\<exists>m. substructure_index_mapping N subs = Inr m
        \<and> m = map (\<lambda>a. Some (the (m ! a))) [0..<N]
        \<and> (\<lambda>a. the (m ! a)) ` {0..<N} = {0..<num_remaining N subs + length subs}
        \<and> (\<forall>i<num_remaining N subs.
              m ! (sorted_list_of_set ({0..<N} - atoms_in_substructures subs) ! i) = Some i)
        \<and> (\<forall>j<length subs.
              \<forall>a\<in>set (sort_key hd (map (\<lambda>s. sorted_list_of_set (set s)) subs) ! j).
                m ! a = Some (num_remaining N subs + j))"
proof -
  let ?A = "atoms_in_substructures subs"
  let ?R = "num_remaining N subs"
  let ?rao = "sorted_list_of_set ({0..<N} - ?A)"
  let ?ord = "sort_key hd (map (\<lambda>s. sorted_list_of_set (set s)) subs)"
  from substructure_index_mapping_spec [OF assms] obtain m where
    run: "substructure_index_mapping N subs = Inr m" and len: "length m = N"
    and rem: "\<forall>i<?R. m ! (?rao ! i) = Some i"
    and sub: "\<forall>j<length subs. \<forall>a\<in>set (?ord ! j). m ! a = Some (?R + j)"
    by blast
  define f where "f a = the (m ! a)" for a
  have lrao: "length ?rao = ?R" by (simp add: num_remaining_def)
  have lord: "length ?ord = length subs" by simp
  have F1: "\<exists>i<?R. a = ?rao ! i \<and> m ! a = Some i" if "a < N" "a \<notin> ?A" for a
  proof -
    have "a \<in> set ?rao" using that by simp
    then obtain i where "i < length ?rao" "?rao ! i = a" unfolding in_set_conv_nth by blast
    then show ?thesis using rem lrao by metis
  qed
  have F2: "\<exists>j<length subs. ?ord ! j = sorted_list_of_set (set s) \<and> m ! a = Some (?R + j)"
    if "s \<in> set subs" "a \<in> set s" for a s
  proof -
    have "sorted_list_of_set (set s) \<in> set ?ord" using that(1) by simp
    then obtain j where j: "j < length ?ord" "?ord ! j = sorted_list_of_set (set s)"
      unfolding in_set_conv_nth by blast
    then have "a \<in> set (?ord ! j)" using that(2) by simp
    then show ?thesis using sub j lord by metis
  qed
  have F2': "\<exists>j<length subs. m ! a = Some (?R + j)" if "a \<in> ?A" for a
  proof -
    from that obtain s where "s \<in> set subs" "a \<in> set s"
      unfolding atoms_in_substructures_def by blast
    from F2 [OF this] show ?thesis by blast
  qed
  have total: "m ! a = Some (f a)" if "a < N" for a
    using F1 [OF that] F2' [of a] unfolding f_def by (cases "a \<in> ?A") auto
  have m_eq: "m = map (\<lambda>a. Some (f a)) [0..<N]"
    using len total by (intro nth_equalityI) simp_all
  have P1: "f ` {0..<N} = {0..<?R + length subs}"
  proof (intro equalityI subsetI)
    fix k assume "k \<in> f ` {0..<N}"
    then obtain a where a: "a < N" "k = f a" by auto
    show "k \<in> {0..<?R + length subs}"
      using F1 [OF a(1)] F2' [of a] a(2) unfolding f_def by (cases "a \<in> ?A") auto
  next
    fix k assume "k \<in> {0..<?R + length subs}"
    then consider "k < ?R" | j where "k = ?R + j" "j < length subs"
      by (metis atLeastLessThan_iff le_Suc_ex nat_add_left_cancel_less not_less)
    then show "k \<in> f ` {0..<N}"
    proof cases
      case 1
      then have "?rao ! k \<in> set ?rao" using lrao by (metis nth_mem)
      then have "?rao ! k < N" by simp
      moreover have "f (?rao ! k) = k" using rem 1 unfolding f_def by simp
      ultimately show ?thesis by force
    next
      case 2
      then have "?ord ! j \<in> set ?ord" using lord by (metis nth_mem)
      then obtain s where s: "s \<in> set subs" "?ord ! j = sorted_list_of_set (set s)" by auto
      then have "s \<noteq> []" using ne by blast
      then obtain a where a: "a \<in> set s" by (cases s) auto
      then have "a \<in> set (?ord ! j)" using s by simp
      then have "f a = k" using sub 2 unfolding f_def by simp
      moreover have "a < N" using a s(1) rng unfolding atoms_in_substructures_def by auto
      ultimately show ?thesis by force
    qed
  qed
  show ?thesis
    using run m_eq P1 rem sub unfolding f_def by blast
qed

text \<open>
  Claim C1, as the code has it. For every molecule with \<open>N\<close> atoms and every set of
  pairwise-disjoint, non-empty substructures whose atoms are atoms of the molecule,
  \<open>substructure_index_mapping\<close> returns a total map \<open>f\<close> from \<open>[0, N)\<close> onto the
  compacted index space \<open>[0, R + S)\<close>, where \<open>R\<close> is the number of atoms outside every
  substructure and \<open>S\<close> the number of substructures. The atoms outside every substructure
  are exactly those sent into the prefix \<open>[0, R)\<close>, in their original relative order
  (\<open>f a < f b\<close> for such atoms \<open>a < b\<close>). Every substructure occupies one trailing slot:
  two atoms of substructures get the same index exactly when they are in the same
  substructure, and the slots are ordered by the minimum original atom index of the
  substructures. So \<open>f\<close> is injective only on the atoms outside the substructures; it is a
  bijection of \<open>[0, N)\<close> only when every substructure is a single atom.
\<close>

theorem substructure_index_mapping_compacts:
  assumes no: "\<not> overlapping subs" and ne: "\<forall>s\<in>set subs. s \<noteq> []"
    and rng: "atoms_in_substructures subs \<subseteq> {0..<N}"
  shows "\<exists>f. substructure_index_mapping N subs = Inr (map (\<lambda>a. Some (f a)) [0..<N])
      \<and> f ` {0..<N} = {0..<num_remaining N subs + length subs}
      \<and> (\<forall>a<N. \<forall>b<N. a \<notin> atoms_in_substructures subs \<and> b \<notin> atoms_in_substructures subs
             \<and> a < b \<longrightarrow> f a < f b)
      \<and> (\<forall>a<N. a \<notin> atoms_in_substructures subs \<longleftrightarrow> f a < num_remaining N subs)
      \<and> (\<forall>s\<in>set subs. \<forall>t\<in>set subs. \<forall>a\<in>set s. \<forall>b\<in>set t.
             (f a < f b \<longleftrightarrow> Min (set s) < Min (set t)) \<and> (f a = f b \<longleftrightarrow> set s = set t))"
proof -
  let ?A = "atoms_in_substructures subs"
  let ?R = "num_remaining N subs"
  let ?rao = "sorted_list_of_set ({0..<N} - ?A)"
  let ?ord = "sort_key hd (map (\<lambda>s. sorted_list_of_set (set s)) subs)"
  from substructure_index_mapping_shape [OF assms] obtain m where
    run: "substructure_index_mapping N subs = Inr m"
    and m_eq': "m = map (\<lambda>a. Some (the (m ! a))) [0..<N]"
    and P1': "(\<lambda>a. the (m ! a)) ` {0..<N} = {0..<?R + length subs}"
    and rem: "\<forall>i<?R. m ! (?rao ! i) = Some i"
    and sub: "\<forall>j<length subs. \<forall>a\<in>set (?ord ! j). m ! a = Some (?R + j)"
    by blast
  define f where "f a = the (m ! a)" for a
  have m_eq: "m = map (\<lambda>a. Some (f a)) [0..<N]" using m_eq' unfolding f_def .
  have P1: "f ` {0..<N} = {0..<?R + length subs}"
  proof -
    have "f = (\<lambda>a. the (m ! a))" unfolding f_def by (rule refl)
    then show ?thesis using P1' by simp
  qed
  have lrao: "length ?rao = ?R" by (simp add: num_remaining_def)
  have lord: "length ?ord = length subs" by simp
  have F1: "\<exists>i<?R. a = ?rao ! i \<and> m ! a = Some i" if "a < N" "a \<notin> ?A" for a
  proof -
    have "a \<in> set ?rao" using that by simp
    then obtain i where "i < length ?rao" "?rao ! i = a" unfolding in_set_conv_nth by blast
    then show ?thesis using rem lrao by metis
  qed
  have F2: "\<exists>j<length subs. ?ord ! j = sorted_list_of_set (set s) \<and> m ! a = Some (?R + j)"
    if "s \<in> set subs" "a \<in> set s" for a s
  proof -
    have "sorted_list_of_set (set s) \<in> set ?ord" using that(1) by simp
    then obtain j where j: "j < length ?ord" "?ord ! j = sorted_list_of_set (set s)"
      unfolding in_set_conv_nth by blast
    then have "a \<in> set (?ord ! j)" using that(2) by simp
    then show ?thesis using sub j lord by metis
  qed
  have F2': "\<exists>j<length subs. m ! a = Some (?R + j)" if "a \<in> ?A" for a
  proof -
    from that obtain s where "s \<in> set subs" "a \<in> set s"
      unfolding atoms_in_substructures_def by blast
    from F2 [OF this] show ?thesis by blast
  qed
  have P2: "f a < f b" if "a < N" "b < N" "a \<notin> ?A" "b \<notin> ?A" "a < b" for a b
  proof -
    from F1 [OF that(1,3)] obtain i where i: "i < ?R" "a = ?rao ! i" "m ! a = Some i" by blast
    from F1 [OF that(2,4)] obtain j where j: "j < ?R" "b = ?rao ! j" "m ! b = Some j" by blast
    have "\<not> j \<le> i"
    proof
      assume "j \<le> i"
      then have "?rao ! j \<le> ?rao ! i" using i(1) lrao by (intro sorted_nth_mono) simp_all
      then show False using that(5) i(2) j(2) by simp
    qed
    then show ?thesis using i(3) j(3) unfolding f_def by simp
  qed
  have P3: "a \<notin> ?A \<longleftrightarrow> f a < ?R" if "a < N" for a
    using F1 [OF that] F2' [of a] unfolding f_def by (cases "a \<in> ?A") auto
  have P4: "(f a < f b \<longleftrightarrow> Min (set s) < Min (set t)) \<and> (f a = f b \<longleftrightarrow> set s = set t)"
    if st: "s \<in> set subs" "t \<in> set subs" and ab: "a \<in> set s" "b \<in> set t" for s t a b
  proof -
    from F2 [OF st(1) ab(1)] obtain i where
      i: "i < length subs" "?ord ! i = sorted_list_of_set (set s)" "m ! a = Some (?R + i)" by blast
    from F2 [OF st(2) ab(2)] obtain j where
      j: "j < length subs" "?ord ! j = sorted_list_of_set (set t)" "m ! b = Some (?R + j)" by blast
    have sne: "s \<noteq> []" "t \<noteq> []" using ne st by auto
    have hi: "hd (?ord ! i) = Min (set s)" and hj: "hd (?ord ! j) = Min (set t)"
      using i(2) j(2) hd_sorted_list_of_set(1) sne by simp_all
    have srt: "sorted (map hd ?ord)" by (rule sorted_sort_key)
    have mono: "hd (?ord ! p) \<le> hd (?ord ! q)" if "p \<le> q" "q < length subs" for p q
      using sorted_nth_mono [OF srt, of p q] that lord by simp
    have same: "i = j" if "set s = set t"
    proof -
      have "a \<in> set (?ord ! j)" using that ab(1) j(2) by simp
      then have "m ! a = Some (?R + j)" using sub j(1) by blast
      then show ?thesis using i(3) by simp
    qed
    have eqmin: "set s = set t" if "Min (set s) = Min (set t)"
    proof -
      have "Min (set s) \<in> set s" "Min (set t) \<in> set t" using sne by simp_all
      then have "Min (set s) \<in> set (?ord ! i)" "Min (set s) \<in> set (?ord ! j)"
        using that i(2) j(2) by simp_all
      then have "m ! Min (set s) = Some (?R + i)" "m ! Min (set s) = Some (?R + j)"
        using sub i(1) j(1) by blast+
      then have "i = j" by simp
      then have "sorted_list_of_set (set s) = sorted_list_of_set (set t)" using i(2) j(2) by simp
      then show ?thesis by (metis List.finite_set set_sorted_list_of_set)
    qed
    have e: "f a = f b \<longleftrightarrow> set s = set t"
    proof
      assume "f a = f b"
      then have "i = j" using i(3) j(3) unfolding f_def by simp
      then have "Min (set s) = Min (set t)" using hi hj by simp
      then show "set s = set t" by (rule eqmin)
    next
      assume "set s = set t"
      then show "f a = f b" using same i(3) j(3) unfolding f_def by simp
    qed
    have l: "f a < f b \<longleftrightarrow> Min (set s) < Min (set t)"
    proof
      assume "f a < f b"
      then have ij: "i < j" using i(3) j(3) unfolding f_def by simp
      then have "Min (set s) \<le> Min (set t)" using mono [of i j] j(1) hi hj by simp
      moreover have "Min (set s) \<noteq> Min (set t)" using eqmin same ij by blast
      ultimately show "Min (set s) < Min (set t)" by simp
    next
      assume lt: "Min (set s) < Min (set t)"
      have "\<not> j \<le> i"
      proof
        assume "j \<le> i"
        then have "Min (set t) \<le> Min (set s)" using mono [of j i] i(1) hi hj by simp
        then show False using lt by simp
      qed
      then show "f a < f b" using i(3) j(3) unfolding f_def by simp
    qed
    show ?thesis using e l by simp
  qed
  show ?thesis
  proof (intro exI [where x = f] conjI)
    show "substructure_index_mapping N subs = Inr (map (\<lambda>a. Some (f a)) [0..<N])"
      using run m_eq by simp
    show "f ` {0..<N} = {0..<?R + length subs}" by (rule P1)
    show "\<forall>a<N. \<forall>b<N. a \<notin> ?A \<and> b \<notin> ?A \<and> a < b \<longrightarrow> f a < f b"
      using P2 by blast
    show "\<forall>a<N. a \<notin> ?A \<longleftrightarrow> f a < ?R" using P3 by blast
    show "\<forall>s\<in>set subs. \<forall>t\<in>set subs. \<forall>a\<in>set s. \<forall>b\<in>set t.
             (f a < f b \<longleftrightarrow> Min (set s) < Min (set t)) \<and> (f a = f b \<longleftrightarrow> set s = set t)"
      using P4 by blast
  qed
qed

theorem substructure_index_mapping_compacts_witness:
  "\<not> overlapping [[4, 5], [0, 2]] \<and> [4, 5] \<noteq> ([] :: nat list) \<and> [0, 2] \<noteq> ([] :: nat list)
   \<and> atoms_in_substructures [[4, 5], [0, 2]] \<subseteq> {0..<6}
   \<and> (\<exists>f. substructure_index_mapping 6 [[4, 5], [0, 2]]
              = Inr [Some 2, Some 0, Some 2, Some 1, Some 3, Some 3]
          \<and> map f [0..<6] = [2, 0, 2, 1, 3, 3 :: nat]
          \<and> f ` {0..<6 :: nat} = {0..<2 + 2}
          \<and> f 1 < f 3 \<and> f 3 < 2 \<and> f 0 < f 4 \<and> f 0 = f 2)"
proof -
  have h1: "\<not> overlapping [[4, 5], [0, 2]]" by code_simp
  have h2: "\<forall>s\<in>set [[4, 5], [0, 2 :: nat]]. s \<noteq> []" by simp
  have h3: "atoms_in_substructures [[4, 5], [0, 2]] \<subseteq> {0..<6}" by code_simp
  have r: "num_remaining 6 [[4, 5], [0, 2]] = 2" by code_simp
  have v: "substructure_index_mapping 6 [[4, 5], [0, 2]]
              = Inr [Some 2, Some 0, Some 2, Some 1, Some 3, Some 3]" by code_simp
  from substructure_index_mapping_compacts [OF h1 h2 h3] obtain f where
    f: "substructure_index_mapping 6 [[4, 5], [0, 2]] = Inr (map (\<lambda>a. Some (f a)) [0..<6])"
       "f ` {0..<6} = {0..<num_remaining 6 [[4, 5], [0, 2]] + length [[4, 5], [0, 2 :: nat]]}"
       "\<forall>a<6. \<forall>b<6. a \<notin> atoms_in_substructures [[4, 5], [0, 2]]
            \<and> b \<notin> atoms_in_substructures [[4, 5], [0, 2]] \<and> a < b \<longrightarrow> f a < f b"
       "\<forall>a<6. a \<notin> atoms_in_substructures [[4, 5], [0, 2]]
            \<longleftrightarrow> f a < num_remaining 6 [[4, 5], [0, 2]]"
       "\<forall>s\<in>set [[4, 5], [0, 2]]. \<forall>t\<in>set [[4, 5], [0, 2]]. \<forall>a\<in>set s. \<forall>b\<in>set t.
             (f a < f b \<longleftrightarrow> Min (set s) < Min (set t)) \<and> (f a = f b \<longleftrightarrow> set s = set t)"
    by blast
  have m: "map (\<lambda>a. Some (f a)) [0..<6] = [Some 2, Some 0, Some 2, Some 1, Some 3, Some 3]"
    using f(1) v by simp
  have "map the (map (\<lambda>a. Some (f a)) [0..<6]) = map f [0..<6]"
    by (simp add: comp_def)
  then have mf: "map f [0..<6] = [2, 0, 2, 1, 3, 3]" unfolding m by simp
  have "[0..<6] = [0, 1, 2, 3, 4, 5]" by code_simp
  then have vals: "f 0 = 2" "f 1 = 0" "f 2 = 2" "f 3 = 1" "f 4 = 3" "f 5 = 3"
    using mf by simp_all
  show ?thesis
    using h1 h3 v mf f(2) r vals by (intro conjI exI [where x = f]) simp_all
qed

text \<open>
  Claim C1 as stated fails: for three atoms and the one substructure \<open>{0, 1}\<close> the map
  is \<open>[1, 1, 0]\<close>, which sends atoms 0 and 1 to the same index and never reaches index 2.
\<close>

theorem substructure_index_mapping_not_bijection:
  "\<not> overlapping [[0, 1]]
   \<and> substructure_index_mapping 3 [[0, 1]] = Inr [Some 1, Some 1, Some 0]
   \<and> \<not> bijection_on_range [Some 1, Some 1, Some 0] 3"
proof (intro conjI)
  show "\<not> overlapping [[0, 1]]" by code_simp
  show "substructure_index_mapping 3 [[0, 1]] = Inr [Some 1, Some 1, Some 0]" by code_simp
  show "\<not> bijection_on_range [Some 1, Some 1, Some 0] 3"
    by (simp add: bijection_on_range_def)
qed

text \<open>
  Claim C7, for the substructures of a molecule of \<open>N\<close> atoms: non-empty sets of atoms
  of the molecule. When some atom belongs to more than one substructure the function fails
  with \<open>AssertionError\<close>; when the substructures are pairwise disjoint it succeeds and
  returns a map over the \<open>N\<close> atoms.
\<close>

theorem substructure_index_mapping_outcome:
  "(overlapping subs \<longrightarrow> substructure_index_mapping N subs = Inl AssertionError)
   \<and> (\<not> overlapping subs \<and> (\<forall>s\<in>set subs. s \<noteq> []) \<and> atoms_in_substructures subs \<subseteq> {0..<N}
        \<longrightarrow> (\<exists>m. substructure_index_mapping N subs = Inr m \<and> length m = N))"
proof (intro conjI impI)
  assume "overlapping subs"
  then show "substructure_index_mapping N subs = Inl AssertionError"
    by (rule substructure_index_mapping_overlap)
next
  assume a: "\<not> overlapping subs \<and> (\<forall>s\<in>set subs. s \<noteq> [])
              \<and> atoms_in_substructures subs \<subseteq> {0..<N}"
  then have "\<not> overlapping subs" "\<forall>s\<in>set subs. s \<noteq> []"
    "atoms_in_substructures subs \<subseteq> {0..<N}" by simp_all
  from substructure_index_mapping_spec [OF this]
  show "\<exists>m. substructure_index_mapping N subs = Inr m \<and> length m = N" by blast
qed

theorem substructure_index_mapping_outcome_witness:
  "overlapping [[4, 5], [5, 2]]
   \<and> substructure_index_mapping 6 [[4, 5], [5, 2]] = Inl AssertionError
   \<and> \<not> overlapping [[4, 5], [0, 2]] \<and> [4, 5] \<noteq> ([] :: nat list) \<and> [0, 2] \<noteq> ([] :: nat list)
   \<and> atoms_in_substructures [[4, 5], [0, 2]] \<subseteq> {0..<6}
   \<and> (\<exists>m. substructure_index_mapping 6 [[4, 5], [0, 2]] = Inr m \<and> length m = 6)"
proof -
  have h1: "overlapping [[4, 5], [5, 2]]" by code_simp
  have h2: "\<not> overlapping [[4, 5], [0, 2]] \<and> (\<forall>s\<in>set [[4, 5], [0, 2 :: nat]]. s \<noteq> [])
            \<and> atoms_in_substructures [[4, 5], [0, 2]] \<subseteq> {0..<6}" by code_simp
  show ?thesis
    using h1 h2 substructure_index_mapping_outcome [of "[[4, 5], [5, 2]]" 6]
      substructure_index_mapping_outcome [of "[[4, 5], [0, 2]]" 6]
    by simp
qed

section \<open>Properties of recreate_mask: substructure mode\<close>

lemma py_max_total:
  assumes "0 < N" "f ` {0..<N} = {0..<K}"
  shows "py_max (map (\<lambda>a. Some (f a)) [0..<N]) = Inr (K - 1) \<and> 0 < K"
proof -
  have ne: "{0..<K} \<noteq> {}" using assms by (metis atLeastLessThan_empty_iff2 image_is_empty)
  then have K: "0 < K" by simp
  have "the ` set (map (\<lambda>a. Some (f a)) [0..<N]) = f ` {0..<N}"
    by (simp add: image_image)
  then have "Max (the ` set (map (\<lambda>a. Some (f a)) [0..<N])) = Max {0..<K}"
    using assms(2) by simp
  also have "\<dots> = K - 1"
    using K by (intro Max_eqI) auto
  finally have mx: "Max (the ` set (map (\<lambda>a. Some (f a)) [0..<N])) = K - 1" .
  have "map (\<lambda>a. Some (f a)) [0..<N] \<noteq> []" using assms(1) by simp
  moreover have "None \<notin> set (map (\<lambda>a. Some (f a)) [0..<N])" by auto
  ultimately show ?thesis using mx K unfolding py_max_def by simp
qed

lemma assign_tail_replicate:
  "assign_tail S z (replicate (R + S) w) =
     (if S = 0 then replicate R z else replicate R w @ replicate S z)"
  by (simp add: assign_tail_def slice_start_def Let_def)

lemma length_assign_tail: "length (assign_tail k v xs) = length xs"
  by (auto simp: assign_tail_def slice_start_def Let_def)

lemma assign_tail_array_ok:
  assumes "length vs = S" "0 < S"
  shows "assign_tail_array S vs (replicate (R + S) v) = Inr (replicate R v @ vs)"
  using assms by (simp add: assign_tail_array_def slice_start_def Let_def)

text \<open>
  Claim C2, what the code does. In substructure mode, for a datapoint with at least one
  atom and pairwise-disjoint, non-empty substructures of its atoms, the mask has the
  length of the compacted index space (remaining atoms plus substructures). When at
  least one substructure was found it is all ones except that exactly the final
  \<open>len(substructures)\<close> entries are 0. When none was found the slice \<^verbatim>\<open>mask[-0:]\<close> is the
  whole array and the mask is all zeros, where the claim says all ones.
\<close>

theorem recreate_mask_substructure_mask:
  assumes bert: "bert_pretraining d" and mode: "bert_vocab_func d = Some ''substructure''"
    and found: "get_substructures ext d rs = (subs, rs')"
    and no: "\<not> overlapping subs" and ne: "\<forall>s\<in>set subs. s \<noteq> []"
    and rng: "atoms_in_substructures subs \<subseteq> {0..<num_atoms d}"
    and atoms: "0 < num_atoms d"
  shows "\<exists>d'. recreate_mask ext d rs = Inr (d', rs')
           \<and> mask d' = (if subs = [] then replicate (num_atoms d) 0
                        else replicate (num_remaining (num_atoms d) subs) 1
                               @ replicate (length subs) 0)"
proof -
  let ?N = "num_atoms d"
  let ?R = "num_remaining ?N subs"
  let ?S = "length subs"
  from substructure_index_mapping_shape [OF no ne rng] obtain m where
    run: "substructure_index_mapping ?N subs = Inr m"
    and m_eq: "m = map (\<lambda>a. Some (the (m ! a))) [0..<?N]"
    and img: "(\<lambda>a. the (m ! a)) ` {0..<?N} = {0..<?R + ?S}"
    by blast
  from py_max_total [OF atoms img] m_eq
  have mx: "py_max m = Inr (?R + ?S - 1)" and pos: "0 < ?R + ?S" by simp_all
  have len: "?R + ?S - 1 + 1 = ?R + ?S" using pos by simp
  let ?mask = "assign_tail ?S (0 :: nat) (replicate (?R + ?S) 1)"
  have lm: "length ?mask = ?R + ?S" by (simp only: length_assign_tail length_replicate)
  let ?labels = "map (w2i_feature ext d) (sort_key (\<lambda>x. the (m ! hd x)) subs)"
  have tg: "\<exists>t. (if length ?labels > 0
              then assign_tail_array ?S ?labels (replicate (?R + ?S) (0 :: nat))
              else Inr (replicate (?R + ?S) 0)) = Inr t"
    using assign_tail_array_ok [of ?labels ?S ?R 0] by auto
  then obtain t where t: "(if length ?labels > 0
              then assign_tail_array ?S ?labels (replicate (?R + ?S) (0 :: nat))
              else Inr (replicate (?R + ?S) 0)) = Inr t" by blast
  have "recreate_mask_substructure ext d rs =
          Inr (d\<lparr>substructures := subs, substructure_index_map := m, mask := ?mask,
                 vocab_targets := t\<rparr>, rs')"
    unfolding recreate_mask_substructure_def
    by (simp only: Let_def found prod.case run sum.case mx len lm t)
  then have "recreate_mask ext d rs =
          Inr (d\<lparr>substructures := subs, substructure_index_map := m, mask := ?mask,
                 vocab_targets := t\<rparr>, rs')"
    unfolding recreate_mask_def using bert mode by simp
  moreover have "?mask = (if subs = [] then replicate ?N 0
                          else replicate ?R 1 @ replicate ?S 0)"
  proof (cases "subs = []")
    case True
    then have "?R = ?N" by (simp add: num_remaining_def atoms_in_substructures_def)
    then show ?thesis using True assign_tail_replicate [of 0 "0 :: nat" ?N 1] by simp
  next
    case False
    then show ?thesis by (simp add: assign_tail_replicate)
  qed
  ultimately show ?thesis by simp
qed

text \<open>
  The failing input of claim C2: a molecule of two atoms in which no substructure is
  found gets the mask \<open>[0, 0]\<close>.
\<close>

theorem recreate_mask_substructure_mask_none_found:
  "map_sum id (\<lambda>(d, rs). mask d)
     (recreate_mask example_externals
        ((example_datapoint ''CC'')\<lparr>bert_pretraining := True,
                                    bert_vocab_func := Some ''substructure''\<rparr>)
        example_rand_state) = Inr [0, 0]"
proof -
  let ?d = "(example_datapoint ''CC'')\<lparr>bert_pretraining := True,
                                    bert_vocab_func := Some ''substructure''\<rparr>"
  have h: "bert_pretraining ?d" "bert_vocab_func ?d = Some ''substructure''"
    "get_substructures example_externals ?d example_rand_state = ([], example_rand_state)"
    "\<not> overlapping []" "\<forall>s\<in>set ([] :: nat list list). s \<noteq> []"
    "atoms_in_substructures [] \<subseteq> {0..<num_atoms ?d}" "0 < num_atoms ?d"
    by (simp_all add: example_datapoint_def example_externals_def overlapping_def
        atoms_in_substructures_def)
  from recreate_mask_substructure_mask [OF h] obtain d' where
    "recreate_mask example_externals ?d example_rand_state = Inr (d', example_rand_state)"
    "mask d' = replicate (num_atoms ?d) 0" by auto
  then show ?thesis by (simp add: example_datapoint_def numeral_2_eq_2)
qed

section \<open>Properties of normalize_features\<close>

lemma vstack_ok:
  assumes "xs \<noteq> []" "\<forall>d\<in>set xs. features d \<noteq> None"
    "\<forall>d\<in>set xs. length (the (features d)) = n"
  shows "vstack (map features xs) = Inr (map (\<lambda>d. the (features d)) xs)"
proof -
  obtain d rest where xs: "xs = d # rest" using assms(1) by (cases xs) auto
  have row: "atleast_2d (features d') = the (features d')" if "d' \<in> set xs" for d'
    using assms(2) that by (auto simp: atleast_2d_def)
  then have m: "map atleast_2d (map features xs) = map (\<lambda>d. the (features d)) xs"
    by simp
  have "\<forall>r'\<in>set (map (\<lambda>d. the (features d)) rest).
                  length r' = length (the (features d))"
    using assms(3) xs by auto
  then show ?thesis unfolding vstack_def m unfolding xs by simp
qed

lemma transform_loop_ok:
  assumes "\<forall>d\<in>set xs. features d \<noteq> None"
  shows "transform_loop t xs = (None, map (\<lambda>d. d\<lparr>features := Some (t (the (features d)))\<rparr>) xs)"
  using assms by (induction xs) auto

lemma normalize_features_fit:
  assumes "data ds \<noteq> []" "\<forall>d\<in>set (data ds). features d \<noteq> None"
    "\<forall>d\<in>set (data ds). length (the (features d)) = n" "scaler ds = None"
  shows "normalize_features fit transform None ds =
           Inr (Some (fit (map (\<lambda>d. the (features d)) (data ds))),
                ds\<lparr>scaler := Some (fit (map (\<lambda>d. the (features d)) (data ds))),
                   data := map (\<lambda>d. d\<lparr>features :=
                              Some (transform (fit (map (\<lambda>d. the (features d)) (data ds)))
                                      (the (features d)))\<rparr>) (data ds)\<rparr>)"
proof -
  obtain d rest where xs: "data ds = d # rest" using assms(1) by (cases "data ds") auto
  have f: "features d \<noteq> None" using assms(2) xs by simp
  show ?thesis
    unfolding normalize_features_def
    using vstack_ok [OF assms(1-3)] assms(4) f xs transform_loop_ok [OF assms(2)] by simp
qed

text \<open>
  A datapoint without features after a first datapoint with one feature: the stacked matrix
  has the row \<open>[None]\<close> for it, the scaler is fitted and stored, the first datapoint is
  rescaled, and the loop then raises \<open>AttributeError\<close>.
\<close>

lemma normalize_features_missing:
  assumes "data ds = d # d' # rest" "features d = Some v" "length v = 1" "features d' = None"
    "\<forall>x\<in>set rest. length (atleast_2d (features x)) = 1" "scaler ds = None"
  shows "normalize_features fit transform None ds =
           Inl (AttributeError,
                ds\<lparr>scaler := Some (fit (map (\<lambda>x. atleast_2d (features x)) (data ds))),
                   data := d\<lparr>features :=
                             Some (transform (fit (map (\<lambda>x. atleast_2d (features x)) (data ds)))
                                     v)\<rparr> # d' # rest\<rparr>)"
proof -
  have "vstack (map features (data ds)) = Inr (map (\<lambda>x. atleast_2d (features x)) (data ds))"
    unfolding vstack_def using assms(1-5) by (simp add: atleast_2d_def)
  then show ?thesis
    unfolding normalize_features_def using assms(1,2,4,6) by simp
qed

lemma normalize_features_reuse:
  assumes "data ds \<noteq> []" "\<forall>d\<in>set (data ds). features d \<noteq> None" "scaler ds = Some sc"
  shows "normalize_features fit transform None ds =
           Inr (Some sc,
                ds\<lparr>data := map (\<lambda>d. d\<lparr>features := Some (transform sc (the (features d)))\<rparr>)
                              (data ds)\<rparr>)"
proof -
  obtain d rest where xs: "data ds = d # rest" using assms(1) by (cases "data ds") auto
  have f: "features d \<noteq> None" using assms(2) xs by simp
  show ?thesis
    unfolding normalize_features_def
    using assms(3) f xs transform_loop_ok [OF assms(2)] by simp
qed

text \<open>
  Claim C5, as the code has it. For every dataset whose datapoints all have feature
  vectors of one length, with no stored scaler: the first call of \<open>normalize_features\<close>
  with no supplied scaler fits a scaler on the stacked features, stores it and transforms
  every feature vector with it; the second call fits nothing, takes the stored scaler and
  transforms every (already transformed) feature vector with it again. So each vector
  after the second call is the transform of the vector after the first call, not the
  vector after the first call. This holds for every \<open>fit\<close> and \<open>transform\<close>.
\<close>

theorem normalize_features_reapplies:
  assumes "data ds \<noteq> []" "\<forall>d\<in>set (data ds). features d \<noteq> None"
    "\<forall>d\<in>set (data ds). length (the (features d)) = n" "scaler ds = None"
  shows "normalize_features_twice fit transform ds =
           Inr (map (\<lambda>d. Some (transform (fit (map (\<lambda>d. the (features d)) (data ds)))
                                  (the (features d)))) (data ds),
                map (\<lambda>d. Some (transform (fit (map (\<lambda>d. the (features d)) (data ds)))
                                  (transform (fit (map (\<lambda>d. the (features d)) (data ds)))
                                     (the (features d))))) (data ds))"
proof -
  let ?sc = "fit (map (\<lambda>d. the (features d)) (data ds))"
  let ?ds1 = "ds\<lparr>scaler := Some ?sc,
                   data := map (\<lambda>d. d\<lparr>features := Some (transform ?sc (the (features d)))\<rparr>)
                             (data ds)\<rparr>"
  have first: "normalize_features fit transform None ds = Inr (Some ?sc, ?ds1)"
    using assms by (rule normalize_features_fit)
  have "data ?ds1 \<noteq> []" "\<forall>d\<in>set (data ?ds1). features d \<noteq> None" "scaler ?ds1 = Some ?sc"
    using assms(1) by simp_all
  from normalize_features_reuse [OF this, of fit transform]
  have second: "normalize_features fit transform None ?ds1 =
      Inr (Some ?sc, ?ds1\<lparr>data := map (\<lambda>d. d\<lparr>features := Some (transform ?sc (the (features d)))\<rparr>)
                              (data ?ds1)\<rparr>)" .
  show ?thesis
    by (simp only: normalize_features_twice_def first sum.case prod.case second)
      (simp add: comp_def)
qed

lemma example_features_dataset_data:
  "data example_features_dataset =
     [(example_datapoint ''C'')\<lparr>features := Some [Some 1]\<rparr>,
      (example_datapoint ''CC'')\<lparr>features := Some [Some 3]\<rparr>]"
  "scaler example_features_dataset = None"
  by (simp_all add: example_features_dataset_def MoleculeDataset_init_def example_datapoint_def)

lemma example_fit:
  "StandardScaler_fit [[Some 1], [Some 3]] = \<lparr>means = [2], stds = [1]\<rparr>"
  by (simp add: StandardScaler_fit_def columns_def mean_def std_def missing_as_zero_def)

theorem normalize_features_reapplies_witness:
  "normalize_features_twice StandardScaler_fit StandardScaler_transform example_features_dataset
     = Inr ([Some [Some (- 1)], Some [Some 1]], [Some [Some (- 3)], Some [Some (- 1)]])"
proof -
  have h: "data example_features_dataset \<noteq> []"
    "\<forall>d\<in>set (data example_features_dataset). features d \<noteq> None"
    "\<forall>d\<in>set (data example_features_dataset). length (the (features d)) = 1"
    "scaler example_features_dataset = None"
    by (simp_all add: example_features_dataset_data)
  show ?thesis
    using normalize_features_reapplies [OF h, of StandardScaler_fit StandardScaler_transform]
    by (simp add: example_features_dataset_data example_fit StandardScaler_transform_def
        missing_as_zero_def)
qed

text \<open>
  Claim C5 as stated fails: for the two feature vectors \<open>[1]\<close> and \<open>[3]\<close> and the
  mean/standard-deviation scaler (mean 2, deviation 1) the vectors are \<open>[-1]\<close>, \<open>[1]\<close> after the
  first call and \<open>[-3]\<close>, \<open>[-1]\<close> after the second.
\<close>

theorem normalize_features_not_idempotent:
  "normalize_features_twice StandardScaler_fit StandardScaler_transform example_features_dataset
     = Inr ([Some [Some (- 1)], Some [Some 1]], [Some [Some (- 3)], Some [Some (- 1)]])
   \<and> [Some [Some (- 3)], Some [Some (- 1 :: real)]] \<noteq> [Some [Some (- 1)], Some [Some 1]]"
  by (simp add: normalize_features_twice_def normalize_features_def vstack_def atleast_2d_def
      example_features_dataset_data example_datapoint_def example_fit StandardScaler_transform_def missing_as_zero_def)

section \<open>Properties of shuffle and chunk\<close>

lemma shuffle_loop_py_only:
  assumes "py_random rs = py_random rs'"
  shows "fst (shuffle_loop k x rs) = fst (shuffle_loop k x rs')
       \<and> py_random (snd (shuffle_loop k x rs)) = py_random (snd (shuffle_loop k x rs'))"
  using assms
proof (induction k arbitrary: x rs rs')
  case 0
  then show ?case by simp
next
  case (Suc k)
  have j: "fst (randbelow (Suc k + 1) rs) = fst (randbelow (Suc k + 1) rs')"
    and g: "py_random (snd (randbelow (Suc k + 1) rs)) = py_random (snd (randbelow (Suc k + 1) rs'))"
    using Suc.prems by (simp_all add: randbelow_def)
  show ?case
    using Suc.IH [OF g] j by (simp add: case_prod_beta Let_def)
qed

lemma shuffle_loop_mset:
  assumes "k < length x \<or> k = 0"
  shows "mset (fst (shuffle_loop k x rs)) = mset x"
  using assms
proof (induction k arbitrary: x rs)
  case 0
  then show ?case by simp
next
  case (Suc k)
  let ?j = "fst (randbelow (Suc k + 1) rs)"
  have jl: "?j < length x" using Suc.prems by (simp add: randbelow_def) (metis Suc_lessI Suc_lessD less_trans_Suc mod_less_divisor not_less_eq zero_less_Suc)
  have sw: "mset (x[Suc k := x ! ?j, ?j := x ! Suc k]) = mset x"
    using Suc.prems jl by (simp add: mset_swap)
  have "k < length (x[Suc k := x ! ?j, ?j := x ! Suc k]) \<or> k = 0" using Suc.prems by simp
  from Suc.IH [OF this] sw show ?case by (simp add: case_prod_beta Let_def)
qed

lemma random_shuffle_mset: "mset (fst (random_shuffle x rs)) = mset x"
  unfolding random_shuffle_def by (rule shuffle_loop_mset) (cases x, auto)

lemma random_shuffle_py_only:
  assumes "py_random rs = py_random rs'"
  shows "fst (random_shuffle x rs) = fst (random_shuffle x rs')"
  unfolding random_shuffle_def using shuffle_loop_py_only [OF assms] by blast

lemma recreate_mask_unmasked:
  assumes "recreate_mask ext d rs = Inr (d', rs')"
  shows "unmasked d' = unmasked d"
  using assms unfolding recreate_mask_def recreate_mask_substructure_def unmasked_def
  by (auto simp: Let_def split: if_splits sum.splits prod.splits)

lemma recreate_masks_unmasked:
  "map unmasked (fst (recreate_masks ext xs rs)) = map unmasked xs"
proof (induction xs arbitrary: rs)
  case Nil
  then show ?case by simp
next
  case (Cons d rest)
  show ?case
  proof (cases "recreate_mask ext d rs")
    case (Inl e)
    then show ?thesis by simp
  next
    case (Inr r)
    obtain d' rs' where r: "r = (d', rs')" by (cases r)
    have "unmasked d' = unmasked d" using Inr r recreate_mask_unmasked by blast
    then show ?thesis using Inr r Cons [of rs'] by (simp add: case_prod_beta)
  qed
qed

lemma shuffle_order:
  "map unmasked (data (fst (shuffle ext seed ds rs)))
     = map unmasked (fst (random_shuffle (data ds)
                            (case seed of None \<Rightarrow> rs | Some s \<Rightarrow> random_seed ext s rs)))"
  unfolding shuffle_def
  by (simp add: Let_def case_prod_beta recreate_masks_unmasked)

text \<open>
  Claim C6. Two datasets constructed independently from the same datapoints in the same
  order, each shuffled with the same seed, hold the datapoints in the same order
  afterwards, whatever the states of the generators were before the two calls (and
  whatever masks the calls regenerate in pretraining mode).
\<close>

theorem shuffle_same_seed_same_order:
  "map unmasked (data (fst (shuffle ext (Some seed) (MoleculeDataset_init xs) rs1)))
     = map unmasked (data (fst (shuffle ext (Some seed) (MoleculeDataset_init xs) rs2)))"
proof -
  have "py_random (random_seed ext seed rs1) = py_random (random_seed ext seed rs2)"
    by (simp add: random_seed_def)
  from random_shuffle_py_only [OF this]
  have "fst (random_shuffle ys (random_seed ext seed rs1))
          = fst (random_shuffle ys (random_seed ext seed rs2))" for ys :: "datapoint list" .
  then show ?thesis
    unfolding shuffle_order by (simp add: MoleculeDataset_init_def Let_def)
qed

theorem shuffle_same_seed_same_order_witness:
  "map smiles (data (fst (shuffle example_externals (Some 42)
                            (example_dataset [''a'', ''b'', ''c'', ''d'', ''e''])
                            example_rand_state)))
     = [''b'', ''c'', ''d'', ''e'', ''a'']
   \<and> map smiles (data (fst (shuffle example_externals (Some 42)
                            (example_dataset [''a'', ''b'', ''c'', ''d'', ''e''])
                            (example_rand_state\<lparr>py_random := (\<lambda>k. k)\<rparr>))))
     = [''b'', ''c'', ''d'', ''e'', ''a'']"
proof -
  let ?A = "data (fst (shuffle example_externals (Some 42)
                            (example_dataset [''a'', ''b'', ''c'', ''d'', ''e''])
                            example_rand_state))"
  let ?B = "data (fst (shuffle example_externals (Some 42)
                            (example_dataset [''a'', ''b'', ''c'', ''d'', ''e''])
                            (example_rand_state\<lparr>py_random := (\<lambda>k. k)\<rparr>)))"
  have A: "map smiles ?A = [''b'', ''c'', ''d'', ''e'', ''a'']" by code_simp
  have sm: "map smiles (map unmasked ys) = map smiles ys" for ys
    by (simp add: unmasked_def)
  have "map unmasked ?A = map unmasked ?B"
    unfolding example_dataset_def by (rule shuffle_same_seed_same_order)
  then have "map smiles ?A = map smiles ?B" using sm by metis
  then show ?thesis using A by simp
qed

lemma concat_slices:
  "concat (map (\<lambda>i. take c (drop (i * c) xs)) [0..<n]) = take (n * c) xs"
proof (induction n)
  case 0
  then show ?case by simp
next
  case (Suc n)
  have "take (n * c) xs @ take c (drop (n * c) xs) = take (n * c + c) xs"
    by (simp add: take_add)
  then show ?case using Suc by (simp add: add.commute)
qed

lemma ceiling_covers:
  assumes "0 < n"
  shows "len \<le> n * nat \<lceil>real len / real n\<rceil>"
proof -
  let ?c = "\<lceil>real len / real n\<rceil>"
  have up: "real len / real n \<le> real_of_int ?c" by (rule le_of_int_ceiling)
  have nn: "0 \<le> ?c"
  proof -
    have "(0 :: real) \<le> real len / real n" by simp
    then have "\<lceil>0 :: real\<rceil> \<le> ?c" by (rule ceiling_mono)
    then show ?thesis by simp
  qed
  have "real len = (real len / real n) * real n" using assms by simp
  also have "\<dots> \<le> real_of_int ?c * real n"
    using up by (rule mult_right_mono) simp
  also have "\<dots> = real (nat ?c * n)" using nn by simp
  finally have "len \<le> nat ?c * n" by (simp only: of_nat_le_iff)
  then show ?thesis by (simp add: mult.commute)
qed

lemma MoleculeDataset_init_data:
  assumes "\<forall>d\<in>set xs. \<not> kernel d"
  shows "data (MoleculeDataset_init xs) = xs"
  using assms by (cases xs) (simp_all add: MoleculeDataset_init_def Let_def)

lemma shuffle_contents:
  "mset (map unmasked (data (fst (shuffle ext seed ds rs)))) = mset (map unmasked (data ds))"
  unfolding shuffle_order using random_shuffle_mset by (metis mset_map)

text \<open>
  Claim C9, as the code has it. For every dataset without kernel datapoints and every
  \<open>num_chunks > 0\<close>, when the shuffle raises nothing, \<open>chunk\<close> returns \<open>num_chunks\<close>
  datasets: chunk \<open>i\<close> holds the contiguous slice of the shuffled data that starts at
  \<open>i * chunk_len\<close> and has at most \<open>chunk_len = ceil(len / num_chunks)\<close> datapoints, so its
  size is \<open>min chunk_len (len - i * chunk_len)\<close>, cut off at 0: full chunks come first, then
  at most one shorter chunk, then empty chunks (there may be several chunks that are not
  full). The chunks concatenated are the shuffled data, whose contents are the contents
  of the original dataset. \<open>chunk(3)\<close> on ten datapoints gives sizes 4, 4, 2.
\<close>

theorem chunk_slices:
  assumes n: "0 < num_chunks"
    and sh: "shuffle ext seed ds rs = (ds', rs', None)"
    and nk: "\<forall>d\<in>set (data ds). \<not> kernel d"
  shows "\<exists>chunks. chunk ext num_chunks seed ds rs = Inr (chunks, ds', rs')
       \<and> length chunks = nat num_chunks
       \<and> (\<forall>i<nat num_chunks.
            data (chunks ! i) =
              take (nat \<lceil>real (length (data ds)) / real_of_int num_chunks\<rceil>)
                (drop (i * nat \<lceil>real (length (data ds)) / real_of_int num_chunks\<rceil>) (data ds'))
            \<and> length (data (chunks ! i)) =
                min (nat \<lceil>real (length (data ds)) / real_of_int num_chunks\<rceil>)
                  (length (data ds)
                     - i * nat \<lceil>real (length (data ds)) / real_of_int num_chunks\<rceil>))
       \<and> concat (map data chunks) = data ds'
       \<and> mset (map unmasked (concat (map data chunks))) = mset (map unmasked (data ds))"
proof -
  let ?n = "nat num_chunks"
  let ?xs = "data ds'"
  let ?c = "nat \<lceil>real (length (data ds)) / real_of_int num_chunks\<rceil>"
  let ?chunks = "map (\<lambda>i. MoleculeDataset_init (py_slice ?xs (i * ?c) ((i + 1) * ?c))) [0..<?n]
                   :: 'a dataset list"
  have cont: "mset (map unmasked ?xs) = mset (map unmasked (data ds))"
    using shuffle_contents [of ext seed ds rs] sh by simp
  then have len: "length ?xs = length (data ds)"
    by (metis length_map size_mset)
  have nk': "\<forall>d\<in>set ?xs. \<not> kernel d"
  proof
    fix d assume "d \<in> set ?xs"
    then have "unmasked d \<in> set (map unmasked (data ds))"
      using cont by (metis image_eqI list.set_map set_mset_mset)
    then obtain d0 where "d0 \<in> set (data ds)" "unmasked d = unmasked d0" by auto
    then have "kernel (unmasked d) = kernel (unmasked d0)" "\<not> kernel d0" using nk by simp_all
    then show "\<not> kernel d" by (simp add: unmasked_def)
  qed
  have sl: "py_slice ?xs (i * ?c) ((i + 1) * ?c) = take ?c (drop (i * ?c) ?xs)" for i
    by (simp add: py_slice_def)
  have dat: "data (MoleculeDataset_init (py_slice ?xs (i * ?c) ((i + 1) * ?c)) :: 'a dataset)
               = take ?c (drop (i * ?c) ?xs)" for i
  proof -
    have "\<forall>d\<in>set (take ?c (drop (i * ?c) ?xs)). \<not> kernel d"
      using nk' by (meson in_set_dropD in_set_takeD)
    then show ?thesis unfolding sl by (rule MoleculeDataset_init_data)
  qed
  have run: "chunk ext num_chunks seed ds rs = Inr (?chunks, ds', rs')"
    unfolding chunk_def using n sh len by (simp add: Let_def)
  have each: "\<forall>i<?n. data (?chunks ! i) = take ?c (drop (i * ?c) ?xs)
                \<and> length (data (?chunks ! i)) = min ?c (length (data ds) - i * ?c)"
    using dat len by (simp add: min.commute)
  have "real_of_int num_chunks = real ?n" using n by simp
  then have cover: "length ?xs \<le> ?n * ?c"
    using ceiling_covers [of ?n "length (data ds)"] n len by simp
  have md: "map data ?chunks = map (\<lambda>i. take ?c (drop (i * ?c) ?xs)) [0..<?n]"
    using dat by simp
  have cc: "concat (map data ?chunks) = ?xs"
    unfolding md concat_slices using cover by simp
  show ?thesis
  proof (intro exI [where x = ?chunks] conjI)
    show "chunk ext num_chunks seed ds rs = Inr (?chunks, ds', rs')" by (rule run)
    show "length ?chunks = ?n" by simp
    show "\<forall>i<?n. data (?chunks ! i) = take ?c (drop (i * ?c) ?xs)
                \<and> length (data (?chunks ! i)) = min ?c (length (data ds) - i * ?c)"
      by (rule each)
    show "concat (map data ?chunks) = ?xs" by (rule cc)
    show "mset (map unmasked (concat (map data ?chunks))) = mset (map unmasked (data ds))"
      unfolding cc by (rule cont)
  qed
qed

theorem chunk_slices_witness:
  "(0 :: int) < 3
   \<and> snd (snd (shuffle example_externals (Some 42)
                 (example_dataset [''a'', ''b'', ''c'', ''d'', ''e'', ''f'', ''g'', ''h'', ''i'', ''j''])
                 example_rand_state)) = None
   \<and> list_all (\<lambda>d. \<not> kernel d)
        (data (example_dataset [''a'', ''b'', ''c'', ''d'', ''e'', ''f'', ''g'', ''h'', ''i'', ''j'']))
   \<and> map_sum id (\<lambda>(chunks, ds, rs). map (\<lambda>c. length (data c)) chunks)
        (chunk example_externals 3 (Some 42)
           (example_dataset [''a'', ''b'', ''c'', ''d'', ''e'', ''f'', ''g'', ''h'', ''i'', ''j''])
           example_rand_state)
       = Inr [4, 4, 2]
   \<and> map_sum id (\<lambda>(chunks, ds, rs). map (\<lambda>c. map smiles (data c)) chunks)
        (chunk example_externals 3 (Some 42)
           (example_dataset [''a'', ''b'', ''c'', ''d'', ''e'', ''f'', ''g'', ''h'', ''i'', ''j''])
           example_rand_state)
       = Inr [[''b'', ''c'', ''d'', ''e''], [''f'', ''g'', ''h'', ''i''], [''j'', ''a'']]"
proof -
  let ?ds = "example_dataset [''a'', ''b'', ''c'', ''d'', ''e'', ''f'', ''g'', ''h'', ''i'', ''j'']"
  let ?sh = "shuffle example_externals (Some 42) ?ds example_rand_state"
  have h1: "(0 :: int) < 3" by simp
  have ok: "snd (snd ?sh) = None" by code_simp
  then have h2: "?sh = (fst ?sh, fst (snd ?sh), None)" by (metis prod.collapse)
  have nk: "list_all (\<lambda>d. \<not> kernel d) (data ?ds)" by code_simp
  then have h3: "\<forall>d\<in>set (data ?ds). \<not> kernel d" by (simp only: list_all_iff)
  have l: "length (data ?ds) = 10" by code_simp
  have c4: "nat \<lceil>real (length (data ?ds)) / real_of_int 3\<rceil> = 4" unfolding l by simp
  from chunk_slices [OF h1 h2 h3] obtain chunks where
    run: "chunk example_externals 3 (Some 42) ?ds example_rand_state
            = Inr (chunks, fst ?sh, fst (snd ?sh))"
    and n: "length chunks = nat 3"
    and each: "\<forall>i<nat 3. length (data (chunks ! i)) = min 4 (length (data ?ds) - i * 4)"
    unfolding c4 by blast
  have "length chunks = Suc (Suc (Suc 0))" using n by simp
  then obtain a b c where abc: "chunks = [a, b, c]" by (auto simp: length_Suc_conv)
  have e0: "length (data (chunks ! 0)) = min 4 (length (data ?ds) - 0 * 4)"
    using each by simp
  have e1: "length (data (chunks ! 1)) = min 4 (length (data ?ds) - 1 * 4)"
    using each by simp
  have e2: "length (data (chunks ! 2)) = min 4 (length (data ?ds) - 2 * 4)"
    using each by simp
  have "length (data a) = 4" "length (data b) = 4" "length (data c) = 2"
    using e0 e1 e2 unfolding abc l by simp_all
  then have "map (\<lambda>c. length (data c)) chunks = [4, 4, 2]"
    unfolding abc by simp
  then have sizes: "map_sum id (\<lambda>(chunks, ds, rs). map (\<lambda>c. length (data c)) chunks)
        (chunk example_externals 3 (Some 42) ?ds example_rand_state) = Inr [4, 4, 2]"
    unfolding run by simp
  have names: "map_sum id (\<lambda>(chunks, ds, rs). map (\<lambda>c. map smiles (data c)) chunks)
        (chunk example_externals 3 (Some 42) ?ds example_rand_state)
       = Inr [[''b'', ''c'', ''d'', ''e''], [''f'', ''g'', ''h'', ''i''], [''j'', ''a'']]"
    by code_simp
  show ?thesis using h1 ok nk sizes names by (intro conjI)
qed

text \<open>
  Claim C9 as stated fails: \<open>chunk(4)\<close> on five datapoints has \<open>chunk_len = 2\<close> and gives
  sizes 2, 2, 1, 0, so the third chunk is shorter than \<open>chunk_len\<close> and is not the last.
\<close>

theorem chunk_not_all_full:
  "map_sum id (\<lambda>(chunks, ds, rs). map (\<lambda>c. length (data c)) chunks)
     (chunk example_externals 4 (Some 42) (example_dataset [''a'', ''b'', ''c'', ''d'', ''e''])
        example_rand_state)
     = Inr [2, 2, 1, 0]"
  by code_simp

section \<open>Properties of recreate_mask: cluster, correlation and random masks\<close>

lemma fold_zero:
  "length (fold (\<lambda>a m. m[a := 0 :: nat]) cluster msk) = length msk
   \<and> (\<forall>i<length msk. fold (\<lambda>a m. m[a := 0]) cluster msk ! i
                          = (if i \<in> set cluster then 0 else msk ! i))"
proof (induction cluster arbitrary: msk)
  case Nil
  then show ?case by simp
next
  case (Cons a as)
  show ?case using Cons [of "msk[a := 0]"] by (auto simp: nth_list_update)
qed

lemma zero_at_zeroed:
  assumes "\<forall>a\<in>set cluster. a < length msk"
  shows "zero_at cluster msk = Inr (zeroed cluster msk)"
proof -
  have "fold (\<lambda>a m. m[a := 0]) cluster msk = zeroed cluster msk"
    unfolding zeroed_def using fold_zero [of cluster msk] by (intro nth_equalityI) simp_all
  then show ?thesis using assms unfolding zero_at_def by simp
qed

lemma zeroed_props:
  "length (zeroed cluster msk) = length msk"
  "set msk \<subseteq> {0, 1} \<Longrightarrow> set (zeroed cluster msk) \<subseteq> {0, 1}"
  "i < length msk \<Longrightarrow> zeroed cluster msk ! i = (if i \<in> set cluster then 0 else msk ! i)"
proof -
  show "length (zeroed cluster msk) = length msk" by (simp add: zeroed_def)
  show "i < length msk \<Longrightarrow> zeroed cluster msk ! i = (if i \<in> set cluster then 0 else msk ! i)"
    by (simp add: zeroed_def)
  show "set msk \<subseteq> {0, 1} \<Longrightarrow> set (zeroed cluster msk) \<subseteq> {0, 1}"
    unfolding zeroed_def by (auto simp: subset_iff) (metis nth_mem)
qed

lemma binary_sum_le:
  assumes "set msk \<subseteq> {0, 1 :: nat}"
  shows "sum_list msk \<le> length msk \<and> (sum_list msk = length msk \<longleftrightarrow> 0 \<notin> set msk)"
  using assms
proof (induction msk)
  case Nil
  then show ?case by simp
next
  case (Cons x xs)
  have "x = 0 \<or> x = 1" using Cons.prems by auto
  then show ?case using Cons by auto
qed

lemma binary_sum:
  assumes "set msk \<subseteq> {0, 1 :: nat}"
  shows "sum_list msk = length msk \<longleftrightarrow> 0 \<notin> set msk"
  using binary_sum_le [OF assms] by blast

lemma cluster_step_spec:
  assumes nb: "length nb = n" "\<forall>a<n. set (nb ! a) \<subseteq> {0..<n}"
    and st: "atoms \<noteq> []" "set atoms \<subseteq> {0..<n}" "length msk = n"
  shows "pop_atom pop atoms \<in> set atoms
       \<and> cluster_step fdiv p nb pop (atoms, msk, rs) =
             Inr (if np_uniform rs 0
                       < fdiv p (length (pop_atom pop atoms # nb ! pop_atom pop atoms))
                  then (filter (\<lambda>a. a \<notin> set (nb ! pop_atom pop atoms))
                          (removeAll (pop_atom pop atoms) atoms),
                        zeroed (pop_atom pop atoms # nb ! pop_atom pop atoms) msk,
                        rs\<lparr>np_uniform := (\<lambda>k. np_uniform rs (Suc k))\<rparr>)
                  else (removeAll (pop_atom pop atoms) atoms, msk,
                        rs\<lparr>np_uniform := (\<lambda>k. np_uniform rs (Suc k))\<rparr>))"
proof -
  let ?atom = "pop_atom pop atoms"
  have mem: "?atom \<in> set atoms" using st(1) by (simp add: pop_atom_def)
  then have lt: "?atom < n" using st(2) by auto
  moreover have "set (nb ! ?atom) \<subseteq> {0..<n}" using nb(2) lt by blast
  ultimately have "\<forall>a\<in>set (?atom # nb ! ?atom). a < length msk" using st(3) by auto
  from zero_at_zeroed [OF this]
  have "cluster_step fdiv p nb pop (atoms, msk, rs) =
             Inr (if np_uniform rs 0 < fdiv p (length (?atom # nb ! ?atom))
                  then (filter (\<lambda>a. a \<notin> set (nb ! ?atom)) (removeAll ?atom atoms),
                        zeroed (?atom # nb ! ?atom) msk,
                        rs\<lparr>np_uniform := (\<lambda>k. np_uniform rs (Suc k))\<rparr>)
                  else (removeAll ?atom atoms, msk,
                        rs\<lparr>np_uniform := (\<lambda>k. np_uniform rs (Suc k))\<rparr>))"
    unfolding cluster_step_def np_random_random_def using lt nb(1) by (simp add: Let_def)
  then show ?thesis using mem by blast
qed

lemma cluster_step_cases:
  assumes nb: "length nb = n" "\<forall>a<n. set (nb ! a) \<subseteq> {0..<n}"
    and st: "atoms \<noteq> []" "set atoms \<subseteq> {0..<n}" "length msk = n"
  shows "\<exists>atoms' msk' rs'.
           cluster_step fdiv p nb pop (atoms, msk, rs) = Inr (atoms', msk', rs')
           \<and> rs' = rs\<lparr>np_uniform := (\<lambda>k. np_uniform rs (Suc k))\<rparr>
           \<and> (if np_uniform rs 0
                    < fdiv p (length (pop_atom pop atoms # nb ! pop_atom pop atoms))
               then set atoms' = set atoms - {pop_atom pop atoms} - set (nb ! pop_atom pop atoms)
                    \<and> msk' = zeroed (pop_atom pop atoms # nb ! pop_atom pop atoms) msk
               else set atoms' = set atoms - {pop_atom pop atoms} \<and> msk' = msk)"
proof (cases "np_uniform rs 0 < fdiv p (length (pop_atom pop atoms # nb ! pop_atom pop atoms))")
  case True
  have "set (filter (\<lambda>a. a \<notin> set (nb ! pop_atom pop atoms))
               (removeAll (pop_atom pop atoms) atoms))
          = set atoms - {pop_atom pop atoms} - set (nb ! pop_atom pop atoms)" by auto
  then show ?thesis
    using cluster_step_spec [OF nb st, of pop fdiv p rs] True by (simp only: if_True) blast
next
  case False
  have "set (removeAll (pop_atom pop atoms) atoms) = set atoms - {pop_atom pop atoms}" by simp
  then show ?thesis
    using cluster_step_spec [OF nb st, of pop fdiv p rs] False by (simp only: if_False) blast
qed

lemma cluster_loop_ok:
  assumes nb: "length nb = n" "\<forall>a<n. set (nb ! a) \<subseteq> {0..<n}"
  shows "set atoms \<subseteq> {0..<n} \<Longrightarrow> length msk = n \<Longrightarrow> set msk \<subseteq> {0, 1} \<Longrightarrow>
         \<exists>msk' rs'. cluster_loop fdiv p nb pop (atoms, msk, rs) = Inr (msk', rs')
            \<and> rtranclp (cluster_next fdiv p nb pop) (atoms, msk, rs) ([], msk', rs')
            \<and> length msk' = n \<and> set msk' \<subseteq> {0, 1}"
proof (induction "length atoms" arbitrary: atoms msk rs rule: less_induct)
  case less
  show ?case
  proof (cases "atoms = []")
    case True
    then show ?thesis using less.prems by simp
  next
    case False
    from cluster_step_cases [OF nb False less.prems(1,2), of fdiv p pop rs]
    obtain atoms' msk1 rs1 where
      step: "cluster_step fdiv p nb pop (atoms, msk, rs) = Inr (atoms', msk1, rs1)"
      and a': "set atoms' \<subseteq> set atoms"
      and m1: "msk1 = msk \<or> (\<exists>c. msk1 = zeroed c msk)"
      by (auto split: if_splits)
    have dec: "length atoms' < length atoms"
      using cluster_step_decreases [OF step False] .
    have l1: "length msk1 = n" using m1 less.prems(2) zeroed_props(1) by auto
    have b1: "set msk1 \<subseteq> {0, 1}" using m1 less.prems(3) zeroed_props(2) by auto
    from less.hyps [OF dec _ l1 b1, of rs1] a' less.prems(1)
    obtain msk' rs' where
      r: "cluster_loop fdiv p nb pop (atoms', msk1, rs1) = Inr (msk', rs')"
         "rtranclp (cluster_next fdiv p nb pop) (atoms', msk1, rs1) ([], msk', rs')"
         "length msk' = n" "set msk' \<subseteq> {0, 1}"
      by blast
    have "cluster_loop fdiv p nb pop (atoms, msk, rs) = Inr (msk', rs')"
      using False step r(1) by simp
    moreover have "cluster_next fdiv p nb pop (atoms, msk, rs) (atoms', msk1, rs1)"
      using False step by (simp add: cluster_next_def)
    then have "rtranclp (cluster_next fdiv p nb pop) (atoms, msk, rs) ([], msk', rs')"
      using r(2) by (rule converse_rtranclp_into_rtranclp)
    ultimately show ?thesis using r by auto
  qed
qed

lemma cluster_visits:
  assumes nb: "length nb = n" "\<forall>a<n. set (nb ! a) \<subseteq> {0..<n}"
    and reach: "rtranclp (cluster_next fdiv p nb pop) ([0..<n], replicate n 1, rs0) s"
  shows "set (fst s) \<subseteq> {0..<n} \<and> length (fst (snd s)) = n
       \<and> (\<forall>a<n. a \<in> set (fst s) \<or> fst (snd s) ! a = 0
              \<or> (\<exists>atoms' msk' rs'.
                    rtranclp (cluster_next fdiv p nb pop) ([0..<n], replicate n 1, rs0)
                      (atoms', msk', rs')
                    \<and> atoms' \<noteq> [] \<and> pop_atom pop atoms' = a))"
  using reach
proof (induction rule: rtranclp_induct)
  case base
  then show ?case by simp
next
  case (step s s')
  obtain atoms msk rs where s: "s = (atoms, msk, rs)" by (cases s)
  have inv: "set atoms \<subseteq> {0..<n}" "length msk = n"
    and vis: "\<And>a. a < n \<Longrightarrow> a \<in> set atoms \<or> msk ! a = 0
              \<or> (\<exists>atoms' msk' rs'.
                    rtranclp (cluster_next fdiv p nb pop) ([0..<n], replicate n 1, rs0)
                      (atoms', msk', rs')
                    \<and> atoms' \<noteq> [] \<and> pop_atom pop atoms' = a)"
    using step.IH s by auto
  have ne: "atoms \<noteq> []" and st: "cluster_step fdiv p nb pop (atoms, msk, rs) = Inr s'"
    using step.hyps(2) s by (simp_all add: cluster_next_def)
  let ?atom = "pop_atom pop atoms"
  from cluster_step_cases [OF nb ne inv, of fdiv p pop rs] st
  obtain atoms' msk' rs' where s': "s' = (atoms', msk', rs')"
    and eff: "if np_uniform rs 0 < fdiv p (length (?atom # nb ! ?atom))
              then set atoms' = set atoms - {?atom} - set (nb ! ?atom)
                   \<and> msk' = zeroed (?atom # nb ! ?atom) msk
              else set atoms' = set atoms - {?atom} \<and> msk' = msk"
    by auto
  have here: "rtranclp (cluster_next fdiv p nb pop) ([0..<n], replicate n 1, rs0)
                (atoms, msk, rs)"
    using step.hyps(1) s by simp
  have sub: "set atoms' \<subseteq> {0..<n}" using eff inv(1) by (auto split: if_splits)
  have len: "length msk' = n" using eff inv(2) zeroed_props(1) by (auto split: if_splits)
  have "a \<in> set atoms' \<or> msk' ! a = 0
              \<or> (\<exists>atoms' msk' rs'.
                    rtranclp (cluster_next fdiv p nb pop) ([0..<n], replicate n 1, rs0)
                      (atoms', msk', rs')
                    \<and> atoms' \<noteq> [] \<and> pop_atom pop atoms' = a)" if a: "a < n" for a
  proof (cases "a = ?atom")
    case True
    then show ?thesis using here ne by blast
  next
    case False
    show ?thesis
    proof (cases "np_uniform rs 0 < fdiv p (length (?atom # nb ! ?atom))")
      case masked: True
      then have e: "set atoms' = set atoms - {?atom} - set (nb ! ?atom)"
        "msk' = zeroed (?atom # nb ! ?atom) msk" using eff by simp_all
      have z: "msk' ! a = (if a \<in> set (?atom # nb ! ?atom) then 0 else msk ! a)"
        unfolding e(2) using a inv(2) by (simp add: zeroed_props(3))
      show ?thesis
      proof (cases "a \<in> set (nb ! ?atom)")
        case True
        then show ?thesis using z by simp
      next
        case notnb: False
        then have "a \<in> set atoms' \<longleftrightarrow> a \<in> set atoms" using e(1) False by auto
        moreover have "msk ! a = 0 \<Longrightarrow> msk' ! a = 0" using z by simp
        ultimately show ?thesis using vis [OF a] by (elim disjE) simp_all
      qed
    next
      case unmasked: False
      then have "set atoms' = set atoms - {?atom}" "msk' = msk" using eff by simp_all
      then have "a \<in> set atoms' \<longleftrightarrow> a \<in> set atoms" "msk' ! a = msk ! a" using False by auto
      then show ?thesis using vis [OF a] by (elim disjE) simp_all
    qed
  qed
  then show ?case using sub len s' by simp
qed

lemma mask_cluster_spec:
  assumes nb: "length nb = n" "\<forall>a<n. set (nb ! a) \<subseteq> {0..<n}"
  shows "\<exists>msk rs1. cluster_loop fdiv p nb pop ([0..<n], replicate n 1, rs) = Inr (msk, rs1)
           \<and> rtranclp (cluster_next fdiv p nb pop) ([0..<n], replicate n 1, rs) ([], msk, rs1)
           \<and> length msk = n \<and> set msk \<subseteq> {0, 1}
           \<and> (0 < n \<longrightarrow> mask_cluster fdiv p nb pop n rs =
                 (if 0 \<in> set msk then Inr (msk, rs1)
                  else Inr (zeroed ((np_random rs1 0 mod n) # nb ! (np_random rs1 0 mod n)) msk,
                            rs1\<lparr>np_random := (\<lambda>k. np_random rs1 (Suc k))\<rparr>)))"
proof -
  have "set [0..<n] \<subseteq> {0..<n}" "length (replicate n (1 :: nat)) = n"
    "set (replicate n (1 :: nat)) \<subseteq> {0, 1}" by auto
  from cluster_loop_ok [OF nb this, of fdiv p pop rs] obtain msk rs1 where
    loop: "cluster_loop fdiv p nb pop ([0..<n], replicate n 1, rs) = Inr (msk, rs1)"
    and reach: "rtranclp (cluster_next fdiv p nb pop) ([0..<n], replicate n 1, rs)
                  ([], msk, rs1)"
    and l: "length msk = n" and b: "set msk \<subseteq> {0, 1}" by blast
  have fin: "mask_cluster fdiv p nb pop n rs =
                 (if 0 \<in> set msk then Inr (msk, rs1)
                  else Inr (zeroed ((np_random rs1 0 mod n) # nb ! (np_random rs1 0 mod n)) msk,
                            rs1\<lparr>np_random := (\<lambda>k. np_random rs1 (Suc k))\<rparr>))" if pos: "0 < n"
  proof (cases "0 \<in> set msk")
    case True
    then have "sum_list msk \<noteq> length msk" using binary_sum [OF b] by simp
    then show ?thesis unfolding mask_cluster_def loop using True by simp
  next
    case False
    then have all: "sum_list msk = length msk" using binary_sum [OF b] by simp
    let ?j = "np_random rs1 0 mod n"
    have j: "?j < n" using pos by simp
    then have "set (nb ! ?j) \<subseteq> {0..<n}" using nb(2) by blast
    then have "\<forall>a\<in>set (?j # nb ! ?j). a < length msk" using j l by auto
    from zero_at_zeroed [OF this] show ?thesis
      unfolding mask_cluster_def loop np_random_randint_def
      using False all j l nb(1) pos by simp
  qed
  show ?thesis using loop reach l b fin by blast
qed

text \<open>
  Claim C3, as the code has it, for neighbour lists over the \<open>n\<close> atoms. Each iteration
  of the loop pops an atom that is still to visit and forms the cluster of it and its
  neighbours. When the uniform draw is below the float quotient of \<open>bert_mask_prob\<close> by
  the cluster size, the whole cluster is masked and the neighbours leave the set of atoms
  to visit; otherwise the mask stays as it is and only the popped atom leaves the set:
  its neighbours stay to be visited. The loop repeats this iteration, each time from the
  state the previous iteration left, until no atom is left to visit, and returns the mask
  of the last state: every atom has then been popped by some iteration or is masked. If
  that mask has no 0, the cluster of one random atom is masked.
\<close>

theorem cluster_mask_generation:
  assumes nb: "length nb = n" "\<forall>a<n. set (nb ! a) \<subseteq> {0..<n}"
  shows "(\<forall>atoms msk rs. atoms \<noteq> [] \<and> set atoms \<subseteq> {0..<n} \<and> length msk = n \<longrightarrow>
            pop_atom pop atoms \<in> set atoms
            \<and> (\<exists>atoms' msk' rs'.
                  cluster_step fdiv p nb pop (atoms, msk, rs) = Inr (atoms', msk', rs')
                  \<and> rs' = rs\<lparr>np_uniform := (\<lambda>k. np_uniform rs (Suc k))\<rparr>
                  \<and> (if np_uniform rs 0
                           < fdiv p (length (pop_atom pop atoms # nb ! pop_atom pop atoms))
                      then set atoms' = set atoms - {pop_atom pop atoms}
                                          - set (nb ! pop_atom pop atoms)
                           \<and> msk' = zeroed (pop_atom pop atoms # nb ! pop_atom pop atoms) msk
                      else set atoms' = set atoms - {pop_atom pop atoms} \<and> msk' = msk)))
       \<and> (\<exists>msk rs1. cluster_loop fdiv p nb pop ([0..<n], replicate n 1, rs0) = Inr (msk, rs1)
             \<and> rtranclp (cluster_next fdiv p nb pop) ([0..<n], replicate n 1, rs0)
                 ([], msk, rs1)
             \<and> length msk = n
             \<and> (\<forall>a<n. msk ! a = 0
                    \<or> (\<exists>atoms' msk' rs'.
                          rtranclp (cluster_next fdiv p nb pop) ([0..<n], replicate n 1, rs0)
                            (atoms', msk', rs')
                          \<and> atoms' \<noteq> [] \<and> pop_atom pop atoms' = a))
             \<and> (0 < n \<longrightarrow> mask_cluster fdiv p nb pop n rs0 =
                   (if 0 \<in> set msk then Inr (msk, rs1)
                    else Inr (zeroed ((np_random rs1 0 mod n) # nb ! (np_random rs1 0 mod n)) msk,
                              rs1\<lparr>np_random := (\<lambda>k. np_random rs1 (Suc k))\<rparr>))))"
proof (intro conjI allI impI)
  fix atoms msk :: "nat list" and rs :: rand_state
  assume a: "atoms \<noteq> [] \<and> set atoms \<subseteq> {0..<n} \<and> length msk = n"
  then have st: "atoms \<noteq> []" "set atoms \<subseteq> {0..<n}" "length msk = n" by simp_all
  show "pop_atom pop atoms \<in> set atoms" using st(1) by (simp add: pop_atom_def)
  show "\<exists>atoms' msk' rs'.
                  cluster_step fdiv p nb pop (atoms, msk, rs) = Inr (atoms', msk', rs')
                  \<and> rs' = rs\<lparr>np_uniform := (\<lambda>k. np_uniform rs (Suc k))\<rparr>
                  \<and> (if np_uniform rs 0
                           < fdiv p (length (pop_atom pop atoms # nb ! pop_atom pop atoms))
                      then set atoms' = set atoms - {pop_atom pop atoms}
                                          - set (nb ! pop_atom pop atoms)
                           \<and> msk' = zeroed (pop_atom pop atoms # nb ! pop_atom pop atoms) msk
                      else set atoms' = set atoms - {pop_atom pop atoms} \<and> msk' = msk)"
    by (rule cluster_step_cases [OF nb st])
next
  from mask_cluster_spec [OF nb, of fdiv p pop rs0] obtain msk rs1 where
    loop: "cluster_loop fdiv p nb pop ([0..<n], replicate n 1, rs0) = Inr (msk, rs1)"
    and reach: "rtranclp (cluster_next fdiv p nb pop) ([0..<n], replicate n 1, rs0)
                  ([], msk, rs1)"
    and l: "length msk = n"
    and fin: "0 < n \<longrightarrow> mask_cluster fdiv p nb pop n rs0 =
                   (if 0 \<in> set msk then Inr (msk, rs1)
                    else Inr (zeroed ((np_random rs1 0 mod n) # nb ! (np_random rs1 0 mod n)) msk,
                              rs1\<lparr>np_random := (\<lambda>k. np_random rs1 (Suc k))\<rparr>))"
    by blast
  have vis: "\<forall>a<n. msk ! a = 0
                    \<or> (\<exists>atoms' msk' rs'.
                          rtranclp (cluster_next fdiv p nb pop) ([0..<n], replicate n 1, rs0)
                            (atoms', msk', rs')
                          \<and> atoms' \<noteq> [] \<and> pop_atom pop atoms' = a)"
    using cluster_visits [OF nb reach] by simp
  show "\<exists>msk rs1. cluster_loop fdiv p nb pop ([0..<n], replicate n 1, rs0) = Inr (msk, rs1)
             \<and> rtranclp (cluster_next fdiv p nb pop) ([0..<n], replicate n 1, rs0)
                 ([], msk, rs1)
             \<and> length msk = n
             \<and> (\<forall>a<n. msk ! a = 0
                    \<or> (\<exists>atoms' msk' rs'.
                          rtranclp (cluster_next fdiv p nb pop) ([0..<n], replicate n 1, rs0)
                            (atoms', msk', rs')
                          \<and> atoms' \<noteq> [] \<and> pop_atom pop atoms' = a))
             \<and> (0 < n \<longrightarrow> mask_cluster fdiv p nb pop n rs0 =
                   (if 0 \<in> set msk then Inr (msk, rs1)
                    else Inr (zeroed ((np_random rs1 0 mod n) # nb ! (np_random rs1 0 mod n)) msk,
                              rs1\<lparr>np_random := (\<lambda>k. np_random rs1 (Suc k))\<rparr>)))"
    using loop reach l vis fin by (intro exI [where x = msk] exI [where x = rs1] conjI)
qed

theorem cluster_mask_generation_witness:
  "length [[1], [0 :: nat]] = 2
   \<and> set ([[1], [0]] ! 0) \<subseteq> {0..<2 :: nat} \<and> set ([[1], [0]] ! 1) \<subseteq> {0..<2 :: nat}
   \<and> pop_atom (\<lambda>atoms. 0) [0, 1] \<in> set [0, 1]
   \<and> (\<exists>atoms' msk' rs'.
          cluster_step (float_div example_externals) (1 / 8) [[1], [0]] (\<lambda>atoms. 0)
              ([0, 1], [1, 1], example_rand_state)
            = Inr (atoms', msk', rs')
          \<and> set atoms' = {1} \<and> msk' = [1, 1])
   \<and> (\<exists>msk rs1. cluster_loop (float_div example_externals) (1 / 8) [[1], [0]] (\<lambda>atoms. 0)
                     ([0..<2], replicate 2 1, example_rand_state) = Inr (msk, rs1)
          \<and> rtranclp (cluster_next (float_div example_externals) (1 / 8) [[1], [0]] (\<lambda>atoms. 0))
               ([0..<2], replicate 2 1, example_rand_state) ([], msk, rs1)
          \<and> length msk = 2)
   \<and> map_sum id fst
        (mask_cluster (float_div example_externals) (1 / 8) [[1], [0]] (\<lambda>atoms. 0) 2
           example_rand_state) = Inr [0, 0]"
proof -
  have h1: "length [[1], [0 :: nat]] = 2" by simp
  have h2: "\<forall>a<2. set ([[1], [0]] ! a) \<subseteq> {0..<2 :: nat}"
    by (auto simp: less_Suc_eq numeral_2_eq_2)
  note T = cluster_mask_generation [OF h1 h2, of "\<lambda>atoms. 0" "float_div example_externals"
      "1 / 8" example_rand_state]
  have st: "[0, 1 :: nat] \<noteq> [] \<and> set [0, 1 :: nat] \<subseteq> {0..<2} \<and> length [1, 1 :: nat] = 2"
    by auto
  note S = T [THEN conjunct1, rule_format, OF st, of example_rand_state]
  have pa: "pop_atom (\<lambda>atoms. 0) [0, 1] = 0" by (simp add: pop_atom_def)
  have no: "\<not> np_uniform example_rand_state 0
              < float_div example_externals (1 / 8) (length (0 # [[1], [0 :: nat]] ! 0))"
    by (simp add: example_rand_state_def example_externals_def)
  from S [THEN conjunct1] have A0: "pop_atom (\<lambda>atoms. 0) [0, 1] \<in> set [0, 1]" .
  from S [THEN conjunct2] obtain atoms' msk' rs' where
    A: "cluster_step (float_div example_externals) (1 / 8) [[1], [0]] (\<lambda>atoms. 0)
              ([0, 1], [1, 1], example_rand_state) = Inr (atoms', msk', rs')"
       "if np_uniform example_rand_state 0
             < float_div example_externals (1 / 8) (length (0 # [[1], [0 :: nat]] ! 0))
        then set atoms' = set [0, 1] - {0} - set ([[1], [0]] ! 0)
             \<and> msk' = zeroed (0 # [[1], [0]] ! 0) [1, 1]
        else set atoms' = set [0, 1] - {0} \<and> msk' = [1, 1]"
    unfolding pa by blast
  have "set atoms' = {1}" "msk' = [1, 1]" using A(2) no by auto
  then have A': "\<exists>atoms' msk' rs'.
          cluster_step (float_div example_externals) (1 / 8) [[1], [0]] (\<lambda>atoms. 0)
              ([0, 1], [1, 1], example_rand_state) = Inr (atoms', msk', rs')
          \<and> set atoms' = {1} \<and> msk' = [1, 1]"
    using A(1) by blast
  from T [THEN conjunct2]
  have B: "\<exists>msk rs1. cluster_loop (float_div example_externals) (1 / 8) [[1], [0]] (\<lambda>atoms. 0)
                     ([0..<2], replicate 2 1, example_rand_state) = Inr (msk, rs1)
          \<and> rtranclp (cluster_next (float_div example_externals) (1 / 8) [[1], [0]] (\<lambda>atoms. 0))
               ([0..<2], replicate 2 1, example_rand_state) ([], msk, rs1)
          \<and> length msk = 2" by blast
  have C: "map_sum id fst
        (mask_cluster (float_div example_externals) (1 / 8) [[1], [0]] (\<lambda>atoms. 0) 2
           example_rand_state) = Inr [0, 0]"
    by code_simp
  have h2': "set ([[1], [0]] ! 0) \<subseteq> {0..<2 :: nat}" "set ([[1], [0]] ! 1) \<subseteq> {0..<2 :: nat}"
    by simp_all
  show ?thesis using h1 h2' A0 A' B C by (intro conjI)
qed

text \<open>
  Claim C3 as stated fails: with two bonded atoms, probability 0.125 and a draw of 0.5,
  the first iteration pops atom 0, does not mask its cluster \<open>{0, 1}\<close>, and leaves the
  neighbour 1 in the set of atoms to visit.
\<close>

theorem cluster_step_keeps_neighbours:
  "map_sum id (\<lambda>(atoms, msk, rs). (atoms, msk))
     (cluster_step (float_div example_externals) (1 / 8) [[1], [0]] (\<lambda>atoms. 0)
        ([0, 1], [1, 1], example_rand_state))
     = Inr ([1], [1, 1])"
  by code_simp

lemma length_np_random_rand: "length (fst (np_random_rand n rs)) = n"
  by (induction n arbitrary: rs) (simp_all add: case_prod_beta Let_def)

lemma bernoulli_mask_props:
  "length (bernoulli_mask p us) = length us" "set (bernoulli_mask p us) \<subseteq> {0, 1}"
  by (auto simp: bernoulli_mask_def)

lemma ensure_zero_spec:
  assumes "0 < length msk" "set msk \<subseteq> {0, 1}"
  shows "\<exists>msk' rs'. ensure_zero msk rs = Inr (msk', rs') \<and> length msk' = length msk
           \<and> 0 \<in> set msk'"
proof (cases "sum_list msk = length msk")
  case True
  let ?j = "np_random rs 0 mod length msk"
  have "?j < length msk" using assms(1) by simp
  then have "0 \<in> set (msk[?j := 0])" by (metis length_list_update nth_list_update_eq nth_mem)
  then show ?thesis unfolding ensure_zero_def np_random_randint_def
    using True assms(1) by simp
next
  case False
  then have "0 \<in> set msk" using binary_sum [OF assms(2)] by simp
  then show ?thesis unfolding ensure_zero_def using False by simp
qed

lemma correlation_loop_ok:
  assumes adj: "adjacency nb n" and pos: "0 < n"
  shows "length msk = n \<Longrightarrow> set msk \<subseteq> {0, 1} \<Longrightarrow>
         \<exists>msk' rs'. correlation_loop k nb msk rs = Inr (msk', rs') \<and> length msk' = n
            \<and> set msk' \<subseteq> {0, 1}"
proof (induction k arbitrary: msk rs)
  case 0
  then show ?case by simp
next
  case (Suc k)
  let ?i = "py_random rs 0 mod n"
  let ?rs1 = "rs\<lparr>py_random := (\<lambda>k. py_random rs (Suc k))\<rparr>"
  have i: "?i < n" using pos by simp
  have r1: "random_randint 0 (int (length msk) - 1) rs = Inr (int ?i, ?rs1)"
    using Suc.prems(1) pos by (simp add: random_randint_def)
  have lnb: "length nb = n" using adj by (simp add: adjacency_def)
  show ?case
  proof (cases "length (nb ! ?i) > 0")
    case False
    then show ?thesis using r1 i lnb Suc.IH [OF Suc.prems, of ?rs1] by simp
  next
    case True
    let ?m = "length (nb ! ?i)"
    let ?j = "py_random ?rs1 0 mod ?m"
    let ?rs2 = "?rs1\<lparr>py_random := (\<lambda>k. py_random ?rs1 (Suc k))\<rparr>"
    have r2: "random_randint 0 (int ?m - 1) ?rs1 = Inr (int ?j, ?rs2)"
      using True by (simp add: random_randint_def)
    have "distinct (nb ! ?i)" "set (nb ! ?i) \<subseteq> {0..<n}"
      using adj i by (simp_all add: adjacency_def)
    then have "?m \<le> n"
      by (metis card_atLeastLessThan card_mono diff_zero distinct_card finite_atLeastLessThan)
    moreover have "?j < ?m" using True by simp
    ultimately have j: "?j < n" by simp
    have "msk ! ?j \<in> set msk" using j Suc.prems(1) by simp
    then have b: "set (msk[?i := msk ! ?j]) \<subseteq> {0, 1}"
      using Suc.prems(2) set_update_subset_insert [of msk ?i "msk ! ?j"] by blast
    have l: "length (msk[?i := msk ! ?j]) = n" using Suc.prems(1) by simp
    from Suc.IH [OF l b, of ?rs2] show ?thesis
      using r1 r2 i j lnb True Suc.prems(1) by simp
  qed
qed

text \<open>
  Claim C4. For every datapoint with at least one atom (one vocabulary target per atom),
  mask generation under the random, correlation and cluster policies returns a mask with
  one entry per atom and at least one 0 entry, for every outcome of the random draws and
  every masking probability (so for every probability strictly between 0 and 1). The
  correlation and cluster policies read the neighbour lists, which are those of a graph
  on the atoms.
\<close>

theorem recreate_mask_has_zero:
  assumes bert: "bert_pretraining d" and mode: "bert_vocab_func d \<noteq> Some ''substructure''"
    and atoms: "0 < length (vocab_targets d)"
    and policy: "bert_mask_type d = Some ''random''
                 \<or> ((bert_mask_type d = Some ''correlation'' \<or> bert_mask_type d = Some ''cluster'')
                     \<and> adjacency (nb_indices d) (length (vocab_targets d)))"
  shows "\<exists>d' rs'. recreate_mask ext d rs = Inr (d', rs')
           \<and> length (mask d') = length (vocab_targets d) \<and> 0 \<in> set (mask d')"
proof -
  let ?n = "length (vocab_targets d)"
  let ?us = "fst (np_random_rand ?n rs)"
  let ?rs1 = "snd (np_random_rand ?n rs)"
  let ?m0 = "bernoulli_mask (bert_mask_prob d) ?us"
  have m0a: "length ?m0 = ?n"
    by (simp add: bernoulli_mask_props(1) length_np_random_rand)
  have m0b: "set ?m0 \<subseteq> {0, 1}" by (rule bernoulli_mask_props(2))
  have m0c: "0 < length ?m0" using atoms m0a by simp
  note m0 = m0a m0b m0c
  consider (random) "bert_mask_type d = Some ''random''"
    | (correlation) "bert_mask_type d = Some ''correlation''"
        "adjacency (nb_indices d) ?n"
    | (cluster) "bert_mask_type d = Some ''cluster''" "adjacency (nb_indices d) ?n"
    using policy by blast
  then show ?thesis
  proof cases
    case random
    from ensure_zero_spec [OF m0(3,2), of ?rs1] obtain msk' rs' where
      "ensure_zero ?m0 ?rs1 = Inr (msk', rs')" "length msk' = length ?m0" "0 \<in> set msk'"
      by blast
    then show ?thesis unfolding recreate_mask_def
      using bert mode random m0(1) by (simp add: Let_def case_prod_beta)
  next
    case correlation
    from correlation_loop_ok [OF correlation(2) atoms m0(1,2), of ?n ?rs1] obtain msk1 rs2 where
      c: "correlation_loop ?n (nb_indices d) ?m0 ?rs1 = Inr (msk1, rs2)" "length msk1 = ?n"
         "set msk1 \<subseteq> {0, 1}" by blast
    have "0 < length msk1" using c(2) atoms by simp
    from ensure_zero_spec [OF this c(3), of rs2] obtain msk' rs' where
      "ensure_zero msk1 rs2 = Inr (msk', rs')" "length msk' = length msk1" "0 \<in> set msk'"
      by blast
    then show ?thesis unfolding recreate_mask_def
      using bert mode correlation(1) c m0(1) by (simp add: Let_def case_prod_beta)
  next
    case cluster
    have nb: "length (nb_indices d) = ?n" "\<forall>a<?n. set (nb_indices d ! a) \<subseteq> {0..<?n}"
      using cluster(2) by (simp_all add: adjacency_def)
    from mask_cluster_spec [OF nb, of "float_div ext" "bert_mask_prob d" "set_pop ext" rs] atoms
    obtain msk rs1 where
      l: "length msk = ?n" and
      fin: "mask_cluster (float_div ext) (bert_mask_prob d) (nb_indices d) (set_pop ext) ?n rs =
                 (if 0 \<in> set msk then Inr (msk, rs1)
                  else Inr (zeroed ((np_random rs1 0 mod ?n)
                                     # nb_indices d ! (np_random rs1 0 mod ?n)) msk,
                            rs1\<lparr>np_random := (\<lambda>k. np_random rs1 (Suc k))\<rparr>))"
      by blast
    let ?j = "np_random rs1 0 mod ?n"
    let ?z = "zeroed (?j # nb_indices d ! ?j) msk"
    have j: "?j < ?n" using atoms by simp
    then have "?z ! ?j = 0" using l by (simp add: zeroed_props(3))
    moreover have lz: "length ?z = ?n" using l by (simp add: zeroed_props(1))
    ultimately have "0 \<in> set ?z" using j by (metis nth_mem)
    then show ?thesis unfolding recreate_mask_def
      using bert mode cluster(1) fin l lz by (simp add: Let_def)
  qed
qed

theorem recreate_mask_has_zero_witness:
  "bert_pretraining ((example_datapoint ''CC'')\<lparr>bert_pretraining := True\<rparr>)
   \<and> bert_vocab_func ((example_datapoint ''CC'')\<lparr>bert_pretraining := True\<rparr>)
       \<noteq> Some ''substructure''
   \<and> 0 < length (vocab_targets ((example_datapoint ''CC'')\<lparr>bert_pretraining := True\<rparr>))
   \<and> bert_mask_type ((example_datapoint ''CC'')\<lparr>bert_pretraining := True\<rparr>) = Some ''cluster''
   \<and> adjacency (nb_indices ((example_datapoint ''CC'')\<lparr>bert_pretraining := True\<rparr>))
        (length (vocab_targets ((example_datapoint ''CC'')\<lparr>bert_pretraining := True\<rparr>)))
   \<and> (\<exists>d' rs'. recreate_mask example_externals
                   ((example_datapoint ''CC'')\<lparr>bert_pretraining := True\<rparr>) example_rand_state
                 = Inr (d', rs')
          \<and> length (mask d') = 2 \<and> 0 \<in> set (mask d'))
   \<and> map_sum id (\<lambda>(d, rs). mask d)
        (recreate_mask example_externals
           ((example_datapoint ''CC'')\<lparr>bert_pretraining := True\<rparr>) example_rand_state)
       = Inr [0, 0]"
proof -
  let ?d = "(example_datapoint ''CC'')\<lparr>bert_pretraining := True\<rparr>"
  have h1: "bert_pretraining ?d" by simp
  have h2: "bert_vocab_func ?d \<noteq> Some ''substructure''" by (simp add: example_datapoint_def)
  have h3: "0 < length (vocab_targets ?d)" by (simp add: example_datapoint_def)
  have h4: "bert_mask_type ?d = Some ''cluster''" by (simp add: example_datapoint_def)
  have h5: "adjacency (nb_indices ?d) (length (vocab_targets ?d))"
    by (auto simp: example_datapoint_def adjacency_def less_Suc_eq)
  have h6: "bert_mask_type ?d = Some ''random''
            \<or> ((bert_mask_type ?d = Some ''correlation'' \<or> bert_mask_type ?d = Some ''cluster'')
                \<and> adjacency (nb_indices ?d) (length (vocab_targets ?d)))"
    using h4 h5 by blast
  have l: "length (vocab_targets ?d) = 2" by (simp add: example_datapoint_def)
  from recreate_mask_has_zero [OF h1 h2 h3 h6, of example_externals example_rand_state]
  have A: "\<exists>d' rs'. recreate_mask example_externals ?d example_rand_state = Inr (d', rs')
          \<and> length (mask d') = 2 \<and> 0 \<in> set (mask d')"
    unfolding l .
  have B: "map_sum id (\<lambda>(d, rs). mask d)
        (recreate_mask example_externals ?d example_rand_state) = Inr [0, 0]"
    by code_simp
  show ?thesis using h1 h2 h3 h4 h5 A B by (intro conjI)
qed

end
